theory Spec2Isabelle
  imports Main "HOL-Library.Word"
begin

section \<open>The instance limiter of generatorrunner (src/main.cpp)\<close>

text \<open>
  The launcher bounds the number of its instances that run at once with a table in a
  shared memory segment: cell 0 holds the number of occupied slots, cells 1 to 10 the
  process identifiers of the holders. The functions embedded here are
  \<open>checkInstances\<close>, \<open>instControlUpdate\<close>, \<open>limitInstances\<close> and the lines of
  \<open>main\<close> that call \<open>limitInstances\<close>.
\<close>

subsection \<open>Constants and result codes\<close>

type_synonym qint64 = "64 word"

definition MAX_INSTANCES :: int where
  "MAX_INSTANCES = 10"

definition EXIT_SUCCESS :: int where
  "EXIT_SUCCESS = 0"

definition EXIT_FAILURE :: int where
  "EXIT_FAILURE = 1"

text \<open>The anonymous enum of the source.\<close>

datatype status = UPDATED | WAITING | ERROR

text \<open>
  The segment is a \<open>qint64\<close> array reached through a raw pointer. An access outside the
  mapped cells (or through the null pointer that \<open>data()\<close> returns when the segment is
  not attached, modelled as the empty array) is undefined behaviour in C++; the model
  stops there with \<open>MemoryFault\<close>.
\<close>

datatype fault = MemoryFault

subsection \<open>checkInstances\<close>

text \<open>
  The loop \<open>for (int counter = 1; counter <= *instControlData; counter++)\<close>. The bound
  is read again at every iteration and compared as a signed 64-bit value. The argument
  \<open>kill\<close> is the result of \<open>kill(pid, 0)\<close>: 0 when the process exists. The counter stays
  below the length of the segment, so it never wraps.
\<close>

function checkInstances_loop ::
  "(qint64 \<Rightarrow> int) \<Rightarrow> qint64 \<Rightarrow> qint64 list \<Rightarrow> nat \<Rightarrow> fault + (status \<times> qint64 list)" where
  "checkInstances_loop kill currentProc mem counter =
     (if mem = [] then Inl MemoryFault
      else if int counter \<le> sint (mem ! 0) then
        (if counter < length mem then
           (if kill (mem ! counter) \<noteq> 0 then Inr (UPDATED, mem[counter := currentProc])
            else checkInstances_loop kill currentProc mem (Suc counter))
         else Inl MemoryFault)
      else Inr (WAITING, mem))"
  by pat_completeness auto
termination
  by (relation "measure (\<lambda>(kill, currentProc, mem, counter). length mem - counter)") auto

declare checkInstances_loop.simps [simp del]

definition checkInstances ::
  "(qint64 \<Rightarrow> int) \<Rightarrow> qint64 list \<Rightarrow> qint64 \<Rightarrow> fault + (status \<times> qint64 list)" where
  "checkInstances kill mem currentProc = checkInstances_loop kill currentProc mem 1"

subsection \<open>instControlUpdate\<close>

text \<open>
  \<open>int instances = *instControlData\<close> keeps the low 32 bits of the count, read as a
  signed value. The debug line after it reads the cell at index \<open>instances\<close>, which
  faults outside the segment. In the branch \<open>instances < maxInst\<close> the increment cannot
  overflow, since \<open>maxInst\<close> is itself a C \<open>int\<close>. The texts written by \<open>qDebug\<close> inside
  this function are not modelled.
\<close>

definition instControlUpdate ::
  "(qint64 \<Rightarrow> int) \<Rightarrow> qint64 \<Rightarrow> int \<Rightarrow> qint64 list \<Rightarrow> bool \<Rightarrow> fault + (status \<times> qint64 list)" where
  "instControlUpdate kill currentProc maxInst mem clean =
     (if clean then
        (if length mem < 2 then Inl MemoryFault
         else Inr (UPDATED, mem[0 := 1, 1 := currentProc]))
      else if mem = [] then Inl MemoryFault
      else
        (let instances = sint (ucast (mem ! 0) :: 32 word) in
         if \<not> (0 \<le> instances \<and> instances < int (length mem)) then Inl MemoryFault
         else if instances < maxInst then
           (if instances + 1 < int (length mem) then
              Inr (UPDATED,
                   mem[0 := word_of_int (instances + 1), nat (instances + 1) := currentProc])
            else Inl MemoryFault)
         else checkInstances kill mem currentProc))"

subsection \<open>The table as the claims read it\<close>

text \<open>The occupied-count (cell 0, signed) and the contents of the occupied slots.\<close>

definition occupied :: "qint64 list \<Rightarrow> int" where
  "occupied mem = sint (mem ! 0)"

definition slots_of :: "qint64 list \<Rightarrow> qint64 list" where
  "slots_of mem = take (nat (occupied mem)) (tl mem)"

text \<open>
  A well-formed table has the size \<open>limitInstances\<close> creates,
  \<open>sizeof(qint64) * (MAX_INSTANCES + 1)\<close>, and a count between 0 and \<open>MAX_INSTANCES\<close>.
\<close>

definition well_formed :: "qint64 list \<Rightarrow> bool" where
  "well_formed mem = (length mem = 11 \<and> 0 \<le> occupied mem \<and> occupied mem \<le> MAX_INSTANCES)"

text \<open>
  A sequence of admission steps on one table: each participant brings its liveness
  probe, its process identifier and its just-created flag; a fault ends the sequence.
\<close>

fun admission_steps ::
  "int \<Rightarrow> qint64 list \<Rightarrow> ((qint64 \<Rightarrow> int) \<times> qint64 \<times> bool) list \<Rightarrow> fault + qint64 list" where
  "admission_steps maxInst mem [] = Inr mem"
| "admission_steps maxInst mem ((kill, currentProc, clean) # rest) =
     (case instControlUpdate kill currentProc maxInst mem clean of
        Inl f \<Rightarrow> Inl f
      | Inr (st, mem') \<Rightarrow> admission_steps maxInst mem' rest)"

subsection \<open>QString::toInt\<close>

text \<open>
  \<open>maxInstancesStr.toInt(&ok)\<close> is Qt's conversion in base 10: surrounding white space
  is ignored, a sign may precede the digits, and a text that is not a number or does not
  fit a 32-bit \<open>int\<close> gives 0 with \<open>ok = false\<close>.
\<close>

definition is_space :: "char \<Rightarrow> bool" where
  "is_space c = (c \<in> set [CHR '' '', CHR 0x09, CHR 0x0A, CHR 0x0B, CHR 0x0C, CHR 0x0D])"

definition trimmed :: "string \<Rightarrow> string" where
  "trimmed s = rev (dropWhile is_space (rev (dropWhile is_space s)))"

definition is_digit :: "char \<Rightarrow> bool" where
  "is_digit c = (c \<in> set ''0123456789'')"

definition digit_val :: "char \<Rightarrow> nat" where
  "digit_val c = of_char c - 48"

definition digits_val :: "string \<Rightarrow> nat" where
  "digits_val ds = foldl (\<lambda>a c. 10 * a + digit_val c) 0 ds"

definition toInt :: "string \<Rightarrow> int \<times> bool" where
  "toInt s =
     (let t = trimmed s;
          neg = (t \<noteq> [] \<and> hd t = CHR ''-'');
          ds = (if t \<noteq> [] \<and> (hd t = CHR ''-'' \<or> hd t = CHR ''+'') then tl t else t);
          v = (if neg then - int (digits_val ds) else int (digits_val ds))
      in if ds = [] \<or> \<not> list_all is_digit ds then (0, False)
         else if - (2 ^ 31) \<le> v \<and> v < 2 ^ 31 then (v, True)
         else (0, False))"

subsection \<open>The platform: shared memory, lock, processes\<close>

text \<open>
  The world is what all processes share: the segments by key and the answer of
  \<open>kill(pid, 0)\<close> for every identifier. A process brings its own identifier and what
  the platform answers to its calls of \<open>create\<close>, \<open>attach\<close> and \<open>lock\<close>:
  \<open>create_fails\<close> is a failure of \<open>create\<close> for another reason than an existing
  segment. A new segment is filled with zeros.
\<close>

record world =
  segments :: "string \<Rightarrow> qint64 list option"
  kill0 :: "qint64 \<Rightarrow> int"

record process =
  applicationPid :: qint64
  create_fails :: bool
  attach_fails :: bool
  lock_fails :: bool

text \<open>
  What a call does to the platform, in order. \<open>Update st\<close> is one call of
  \<open>instControlUpdate\<close>, which reads or writes the table, with its result.
\<close>

datatype event =
  Debug string | Create bool | Attach bool | Lock bool | Update status | Sleep nat
  | Unlock | Detach

datatype loop_outcome = LoopLeft | LoopFault | LoopRunning

datatype outcome = Returned int | Crashed | Running

subsection \<open>limitInstances\<close>

text \<open>
  The loop \<open>while (instControlUpdate(maxInst, instControl, clean) == WAITING) sleep(10)\<close>.
  It has no bound in the source, so the model counts attempts with \<open>fuel\<close> and answers
  \<open>LoopRunning\<close> when the fuel is used up with the process still in the loop. During the
  \<open>i\<close>-th sleep the rest of the system changes the world by \<open>env i\<close>.
\<close>

fun waitLoop ::
  "(nat \<Rightarrow> world \<Rightarrow> world) \<Rightarrow> nat \<Rightarrow> nat \<Rightarrow> int \<Rightarrow> string \<Rightarrow> bool \<Rightarrow> bool \<Rightarrow> qint64 \<Rightarrow> world
     \<Rightarrow> loop_outcome \<times> world \<times> event list" where
  "waitLoop env 0 i maxInst key attached clean pid w = (LoopRunning, w, [])"
| "waitLoop env (Suc fuel) i maxInst key attached clean pid w =
     (case instControlUpdate (kill0 w) pid maxInst
             (if attached then (case segments w key of Some mem \<Rightarrow> mem | None \<Rightarrow> []) else [])
             clean of
        Inl f \<Rightarrow> (LoopFault, w, [])
      | Inr (st, mem') \<Rightarrow>
          (let w' = w\<lparr>segments := (segments w)(key \<mapsto> mem')\<rparr> in
           if st = WAITING then
             (case waitLoop env fuel (Suc i) maxInst key attached clean pid (env i w') of
                (r, w'', evs) \<Rightarrow> (r, w'', Update WAITING # Sleep 10 # evs))
           else (LoopLeft, w', [Update st])))"

text \<open>
  The events up to the loop: \<open>create\<close>, then \<open>attach\<close> when \<open>create\<close> did not attach,
  then \<open>lock\<close>, each failure followed by its debug line (none for a segment that
  already exists).
\<close>

definition created :: "process \<Rightarrow> world \<Rightarrow> string \<Rightarrow> bool" where
  "created p w key = (segments w key = None \<and> \<not> create_fails p)"

definition attached :: "process \<Rightarrow> world \<Rightarrow> string \<Rightarrow> bool" where
  "attached p w key = (created p w key \<or> (segments w key \<noteq> None \<and> \<not> attach_fails p))"

definition open_events :: "process \<Rightarrow> world \<Rightarrow> string \<Rightarrow> event list" where
  "open_events p w key =
     [Debug ''key:'', Create (created p w key)]
     @ (if \<not> created p w key \<and> segments w key = None then [Debug ''create:''] else [])
     @ (if created p w key then []
        else Attach (attached p w key) # (if attached p w key then [] else [Debug ''attach:'']))"

definition lock_events :: "process \<Rightarrow> event list" where
  "lock_events p =
     Lock (\<not> lock_fails p) # (if lock_fails p then [Debug ''lock:''] else [])
     @ [Debug ''control update'']"

definition close_events :: "event list" where
  "close_events = [Unlock, Debug ''memoria unlocada'', Detach]"

text \<open>
  The world returned is the one at the call of \<open>detach()\<close>; what the operating system
  does afterwards with a segment that no process is attached to is outside the model.
\<close>

definition limitInstances ::
  "(nat \<Rightarrow> world \<Rightarrow> world) \<Rightarrow> nat \<Rightarrow> string \<Rightarrow> string \<Rightarrow> process \<Rightarrow> world
     \<Rightarrow> outcome \<times> world \<times> event list" where
  "limitInstances env fuel maxInstancesStr key p w =
     (case toInt maxInstancesStr of
        (maxInst, ok) \<Rightarrow>
          if \<not> ok \<or> maxInst > MAX_INSTANCES then (Returned EXIT_FAILURE, w, [])
          else
            (let clean = created p w key;
                 w1 = (if clean then w\<lparr>segments := (segments w)(key \<mapsto> replicate 11 0)\<rparr>
                       else w)
             in case waitLoop env fuel 0 maxInst key (attached p w key) clean
                       (applicationPid p) w1 of
                  (LoopLeft, w2, evs) \<Rightarrow>
                    (Returned EXIT_SUCCESS, w2,
                     open_events p w key @ lock_events p @ evs @ close_events)
                | (LoopFault, w2, evs) \<Rightarrow>
                    (Crashed, w2, open_events p w key @ lock_events p @ evs)
                | (LoopRunning, w2, evs) \<Rightarrow>
                    (Running, w2, open_events p w key @ lock_events p @ evs)))"

subsection \<open>The call in main\<close>

text \<open>Printing an \<open>int\<close> on \<open>std::cerr\<close>, in decimal.\<close>

fun show_nat :: "nat \<Rightarrow> string" where
  "show_nat n =
     (if n < 10 then [''0123456789'' ! n]
      else show_nat (n div 10) @ [''0123456789'' ! (n mod 10)])"

declare show_nat.simps [simp del]

definition show_int :: "int \<Rightarrow> string" where
  "show_int i = (if i < 0 then CHR ''-'' # show_nat (nat (- i)) else show_nat (nat i))"

text \<open>
  The lines of \<open>main\<close> from \<open>if (args.contains("max-instances"))\<close> to the end of that
  statement: the result says whether \<open>main\<close> returns there and with which status, and
  carries the text these lines send to \<open>std::cerr\<close>.
\<close>

datatype main_outcome = Exit int | Continue | MainCrashed | MainRunning

definition main_max_instances ::
  "(nat \<Rightarrow> world \<Rightarrow> world) \<Rightarrow> nat \<Rightarrow> string \<Rightarrow> (string \<Rightarrow> string option) \<Rightarrow> process \<Rightarrow> world
     \<Rightarrow> main_outcome \<times> string \<times> world \<times> event list" where
  "main_max_instances env fuel argv0 args p w =
     (case args ''max-instances'' of
        None \<Rightarrow> (Continue, [], w, [])
      | Some v \<Rightarrow>
          (case limitInstances env fuel v ''testing'' p w of
             (Returned r, w', evs) \<Rightarrow>
               if r = EXIT_FAILURE then
                 (Exit EXIT_FAILURE,
                  argv0 @ '': You must set max-instances using numbers [0 - ''
                    @ show_int MAX_INSTANCES @ '']'' @ [CHR 0x0A],
                  w', evs)
               else (Continue, [], w', evs)
           | (Crashed, w', evs) \<Rightarrow> (MainCrashed, [], w', evs)
           | (Running, w', evs) \<Rightarrow> (MainRunning, [], w', evs)))"

text \<open>The decimal numbers that occur in a text, in order.\<close>

fun numbers_from :: "nat option \<Rightarrow> string \<Rightarrow> nat list" where
  "numbers_from None [] = []"
| "numbers_from (Some n) [] = [n]"
| "numbers_from a (c # cs) =
     (if is_digit c then
        numbers_from (Some (10 * (case a of None \<Rightarrow> 0 | Some n \<Rightarrow> n) + digit_val c)) cs
      else (case a of None \<Rightarrow> numbers_from None cs | Some n \<Rightarrow> n # numbers_from None cs))"

definition numbers_in :: "string \<Rightarrow> nat list" where
  "numbers_in s = numbers_from None s"

subsection \<open>The lock along a trace\<close>

text \<open>
  Whether this process holds the lock after an event, and the three properties of a
  trace the claims speak of: no sleep with the lock held, every sleep with the lock
  held, every table access with the lock held.
\<close>

fun lock_after :: "bool \<Rightarrow> event \<Rightarrow> bool" where
  "lock_after held (Lock ok) = (held \<or> ok)"
| "lock_after held Unlock = False"
| "lock_after held e = held"

fun sleeps_unlocked :: "bool \<Rightarrow> event list \<Rightarrow> bool" where
  "sleeps_unlocked held [] = True"
| "sleeps_unlocked held (Sleep n # es) = (\<not> held \<and> sleeps_unlocked held es)"
| "sleeps_unlocked held (e # es) = sleeps_unlocked (lock_after held e) es"

fun sleeps_locked :: "bool \<Rightarrow> event list \<Rightarrow> bool" where
  "sleeps_locked held [] = True"
| "sleeps_locked held (Sleep n # es) = (held \<and> sleeps_locked held es)"
| "sleeps_locked held (e # es) = sleeps_locked (lock_after held e) es"

fun updates_locked :: "bool \<Rightarrow> event list \<Rightarrow> bool" where
  "updates_locked held [] = True"
| "updates_locked held (Update st # es) = (held \<and> updates_locked held es)"
| "updates_locked held (e # es) = updates_locked (lock_after held e) es"

definition is_lock_event :: "event \<Rightarrow> bool" where
  "is_lock_event e = (e = Lock True \<or> e = Lock False \<or> e = Debug ''lock:'')"

text \<open>The number of occupied slots whose recorded holder answers the probe as alive.\<close>

definition live_slots :: "(qint64 \<Rightarrow> int) \<Rightarrow> qint64 list \<Rightarrow> nat" where
  "live_slots kill mem = length (filter (\<lambda>pid. kill pid = 0) (slots_of mem))"


subsection \<open>Concrete tables and probes\<close>

text \<open>
  Probes under which every process exists, or all but the named ones; a new table, a
  table held by process 5, a table held by processes 5 and 7; three admission steps.
\<close>

definition probe_alive :: "qint64 \<Rightarrow> int" where
  "probe_alive pid = 0"

definition probe_dead5 :: "qint64 \<Rightarrow> int" where
  "probe_dead5 pid = (if pid = 5 then - 1 else 0)"

definition probe_dead7 :: "qint64 \<Rightarrow> int" where
  "probe_dead7 pid = (if pid = 7 then - 1 else 0)"

definition probe_dead7_99 :: "qint64 \<Rightarrow> int" where
  "probe_dead7_99 pid = (if pid = 7 \<or> pid = 99 then - 1 else 0)"

definition fresh_table :: "qint64 list" where
  "fresh_table = replicate 11 0"

definition table_5 :: "qint64 list" where
  "table_5 = [1, 5, 0, 0, 0, 0, 0, 0, 0, 0, 0]"

definition table_5_7 :: "qint64 list" where
  "table_5_7 = [2, 5, 7, 0, 0, 0, 0, 0, 0, 0, 0]"

definition three_steps :: "((qint64 \<Rightarrow> int) \<times> qint64 \<times> bool) list" where
  "three_steps = [(probe_alive, 5, True), (probe_alive, 7, False), (probe_alive, 9, False)]"


definition dead5_then_9 :: "qint64 list" where
  "dead5_then_9 = [2, 5, 9, 0, 0, 0, 0, 0, 0, 0, 0]"

definition table_5_5 :: "qint64 list" where
  "table_5_5 = [2, 5, 5, 0, 0, 0, 0, 0, 0, 0, 0]"

subsection \<open>Concrete worlds, processes and arguments\<close>

text \<open>
  An environment that changes nothing during a sleep, and one in which process 5 exits;
  a world without segments and one where process 5 holds the table of key
  \<open>testing\<close>; process 9 with a working platform, and with a failing \<open>lock\<close>; the
  command-line arguments \<open>--max-instances=11\<close> and \<open>--max-instances=1\<close>.
\<close>

definition no_env :: "nat \<Rightarrow> world \<Rightarrow> world" where
  "no_env i w = w"

definition holder_exits :: "nat \<Rightarrow> world \<Rightarrow> world" where
  "holder_exits i w = w\<lparr>kill0 := probe_dead5\<rparr>"

definition no_segments :: "string \<Rightarrow> qint64 list option" where
  "no_segments key = None"

definition testing_held :: "string \<Rightarrow> qint64 list option" where
  "testing_held key = (if key = ''testing'' then Some table_5 else None)"

definition empty_world :: world where
  "empty_world = \<lparr>segments = no_segments, kill0 = probe_alive\<rparr>"

definition held_world :: world where
  "held_world = \<lparr>segments = testing_held, kill0 = probe_alive\<rparr>"

definition proc_9 :: process where
  "proc_9 = \<lparr>applicationPid = 9, create_fails = False, attach_fails = False,
             lock_fails = False\<rparr>"

definition proc_9_unlocked :: process where
  "proc_9_unlocked = \<lparr>applicationPid = 9, create_fails = False, attach_fails = False,
             lock_fails = True\<rparr>"

definition args_11 :: "string \<Rightarrow> string option" where
  "args_11 name = (if name = ''max-instances'' then Some ''11'' else None)"

definition args_1 :: "string \<Rightarrow> string option" where
  "args_1 name = (if name = ''max-instances'' then Some ''1'' else None)"

subsection \<open>The shape of a trace\<close>

text \<open>
  \<open>k\<close> failed attempts, each followed by its sleep; and the result of
  \<open>limitInstances\<close> that belongs to each way of ending the loop.
\<close>

definition retries :: "nat \<Rightarrow> event list" where
  "retries k = concat (replicate k [Update WAITING, Sleep 10])"

definition outcome_of :: "loop_outcome \<Rightarrow> outcome" where
  "outcome_of lr = (case lr of LoopLeft \<Rightarrow> Returned EXIT_SUCCESS | LoopFault \<Rightarrow> Crashed
                     | LoopRunning \<Rightarrow> Running)"

subsection \<open>The attempts of the loop, one by one\<close>

text \<open>
  A failed attempt leaves the table as it was, so the world at the \<open>j\<close>-th attempt of
  the loop is the starting world after the first \<open>j\<close> sleeps. \<open>attempt\<close> is the call of
  \<open>instControlUpdate\<close> the loop makes there, \<open>attempt_fails\<close> says that it answers
  \<open>WAITING\<close>, and \<open>created_world\<close> is the world the loop starts in: the one
  \<open>limitInstances\<close> was called in, with the new segment when \<open>create\<close> succeeded.
\<close>

fun world_before :: "(nat \<Rightarrow> world \<Rightarrow> world) \<Rightarrow> world \<Rightarrow> nat \<Rightarrow> world" where
  "world_before env w 0 = w"
| "world_before env w (Suc j) = env j (world_before env w j)"

definition attempt ::
  "(nat \<Rightarrow> world \<Rightarrow> world) \<Rightarrow> int \<Rightarrow> string \<Rightarrow> bool \<Rightarrow> bool \<Rightarrow> qint64 \<Rightarrow> world \<Rightarrow> nat
     \<Rightarrow> fault + (status \<times> qint64 list)" where
  "attempt env maxInst key att clean pid w j =
     instControlUpdate (kill0 (world_before env w j)) pid maxInst
       (if att then (case segments (world_before env w j) key of Some mem \<Rightarrow> mem | None \<Rightarrow> [])
        else [])
       clean"

definition attempt_fails ::
  "(nat \<Rightarrow> world \<Rightarrow> world) \<Rightarrow> int \<Rightarrow> string \<Rightarrow> bool \<Rightarrow> bool \<Rightarrow> qint64 \<Rightarrow> world \<Rightarrow> nat \<Rightarrow> bool" where
  "attempt_fails env maxInst key att clean pid w j =
     (case attempt env maxInst key att clean pid w j of
        Inl f \<Rightarrow> False
      | Inr (st, mem') \<Rightarrow> st = WAITING)"

definition created_world :: "process \<Rightarrow> world \<Rightarrow> string \<Rightarrow> world" where
  "created_world p w key =
     (if created p w key then w\<lparr>segments := (segments w)(key \<mapsto> replicate 11 0)\<rparr> else w)"

text \<open>
  The events of a trace that concern the lock or the table: \<open>lock\<close>, \<open>unlock\<close>, the
  attempts and the sleeps between them. And the property of a trace that every table
  access happens without the lock.
\<close>

fun lock_or_table_event :: "event \<Rightarrow> bool" where
  "lock_or_table_event (Lock ok) = True"
| "lock_or_table_event Unlock = True"
| "lock_or_table_event (Update st) = True"
| "lock_or_table_event (Sleep n) = True"
| "lock_or_table_event e = False"

fun updates_unlocked :: "bool \<Rightarrow> event list \<Rightarrow> bool" where
  "updates_unlocked held [] = True"
| "updates_unlocked held (Update st # es) = (\<not> held \<and> updates_unlocked held es)"
| "updates_unlocked held (e # es) = updates_unlocked (lock_after held e) es"

text \<open>A world where processes 5 and 7 hold both slots of key \<open>testing\<close>.\<close>

definition testing_full :: "string \<Rightarrow> qint64 list option" where
  "testing_full key = (if key = ''testing'' then Some table_5_7 else None)"

definition full_world :: world where
  "full_world = \<lparr>segments = testing_full, kill0 = probe_alive\<rparr>"

text \<open>
  How the loop ends when its first \<open>k\<close> attempts fail: still running when the fuel is
  used up, at a fault when attempt \<open>k\<close> faults, and left with the table that attempt
  \<open>k\<close> wrote otherwise.
\<close>

definition loop_end ::
  "(nat \<Rightarrow> world \<Rightarrow> world) \<Rightarrow> nat \<Rightarrow> int \<Rightarrow> string \<Rightarrow> bool \<Rightarrow> bool \<Rightarrow> qint64 \<Rightarrow> world \<Rightarrow> nat
     \<Rightarrow> loop_outcome \<times> world \<times> event list" where
  "loop_end env fuel maxInst key att clean pid w k =
     (if k = fuel then (LoopRunning, world_before env w k, retries k)
      else case attempt env maxInst key att clean pid w k of
             Inl f \<Rightarrow> (LoopFault, world_before env w k, retries k)
           | Inr (st, mem') \<Rightarrow>
               (LoopLeft,
                (world_before env w k)\<lparr>segments := (segments (world_before env w k))(key \<mapsto> mem')\<rparr>,
                retries k @ [Update UPDATED]))"

section \<open>Properties\<close>

subsection \<open>Reading the count\<close>

lemma sint_ucast_small:
  fixes x :: "64 word"
  assumes "0 \<le> sint x" "sint x \<le> 10"
  shows "sint (ucast x :: 32 word) = sint x"
proof -
  have u: "uint x = sint x"
    using assms by (simp add: uint_sint take_bit_int_eq_self)
  have "sint (ucast x :: 32 word) = signed_take_bit 31 (uint x)"
    by (simp add: signed_ucast_eq)
  also have "\<dots> = uint x"
    using assms u by (simp add: signed_take_bit_int_eq_self)
  finally show ?thesis using u by simp
qed

lemma sint_word_of_int_small:
  "0 \<le> n \<Longrightarrow> n \<le> 10 \<Longrightarrow> sint (word_of_int n :: 64 word) = n"
  by (simp add: signed_of_int signed_take_bit_int_eq_self)

lemma loop_cong:
  "(\<And>i. counter \<le> i \<Longrightarrow> int i \<le> sint (mem ! 0) \<Longrightarrow> i < length mem \<Longrightarrow>
        (k1 (mem ! i) = 0 \<longleftrightarrow> k2 (mem ! i) = 0))
   \<Longrightarrow> checkInstances_loop k1 p mem counter = checkInstances_loop k2 p mem counter"
proof (induction k1 p mem counter rule: checkInstances_loop.induct)
  case (1 kill currentProc mem counter)
  show ?case
    apply (subst checkInstances_loop.simps)
    apply (subst (2) checkInstances_loop.simps)
    using 1 by auto
qed

lemma loop_first_dead:
  assumes "c \<le> j" "int j \<le> sint (mem ! 0)" "j < length mem" "kill (mem ! j) \<noteq> 0"
    and "\<forall>i. c \<le> i \<and> i < j \<longrightarrow> kill (mem ! i) = 0"
  shows "checkInstances_loop kill p mem c = Inr (UPDATED, mem[j := p])"
  using assms
proof (induction "j - c" arbitrary: c)
  case 0
  then have "c = j" by simp
  with 0 show ?case
    by (subst checkInstances_loop.simps) auto
next
  case (Suc d)
  then have lt: "c < j" by simp
  have rec: "checkInstances_loop kill p mem (Suc c) = Inr (UPDATED, mem[j := p])"
    using Suc by (intro Suc.hyps(1)) auto
  have alive: "kill (mem ! c) = 0"
    using Suc.prems lt by simp
  show ?case
    using lt Suc.prems(2,3) alive rec
    by (subst checkInstances_loop.simps) auto
qed

lemma loop_all_alive:
  assumes "mem \<noteq> []" "sint (mem ! 0) < int (length mem)"
    and "\<forall>i. c \<le> i \<and> int i \<le> sint (mem ! 0) \<longrightarrow> kill (mem ! i) = 0"
  shows "checkInstances_loop kill p mem c = Inr (WAITING, mem)"
  using assms
proof (induction "nat (sint (mem ! 0) + 1) - c" arbitrary: c)
  case 0
  then have "\<not> int c \<le> sint (mem ! 0)" by linarith
  then show ?case
    using 0(2) by (subst checkInstances_loop.simps) simp
next
  case (Suc d)
  then have le: "int c \<le> sint (mem ! 0)" by linarith
  then have clt: "c < length mem" using Suc.prems(2) by linarith
  have alive: "kill (mem ! c) = 0" using Suc.prems(3) le by simp
  have d: "d = nat (sint (mem ! 0) + 1) - Suc c" using Suc.hyps(2) by linarith
  have rest: "\<forall>i. Suc c \<le> i \<and> int i \<le> sint (mem ! 0) \<longrightarrow> kill (mem ! i) = 0"
    using Suc.prems(3) by simp
  have rec: "checkInstances_loop kill p mem (Suc c) = Inr (WAITING, mem)"
    by (rule Suc.hyps(1)[OF d Suc.prems(1) Suc.prems(2) rest])
  show ?case
    by (subst checkInstances_loop.simps) (simp add: Suc.prems(1) le clt alive rec)
qed

lemma first_dead_exists:
  assumes "c \<le> k" "kill (mem ! k) \<noteq> (0::int)"
  shows "\<exists>j. c \<le> j \<and> j \<le> k \<and> kill (mem ! j) \<noteq> 0 \<and> (\<forall>i. c \<le> i \<and> i < j \<longrightarrow> kill (mem ! i) = 0)"
proof -
  define P where "P j \<longleftrightarrow> c \<le> j \<and> kill (mem ! j) \<noteq> 0" for j
  have Pk: "P k" using assms by (simp add: P_def)
  define j where "j = (LEAST j. P j)"
  have Pj: "P j" unfolding j_def using Pk by (rule LeastI)
  have jk: "j \<le> k" unfolding j_def using Pk by (rule Least_le)
  have min: "\<not> P i" if "i < j" for i
    using that not_less_Least unfolding j_def by blast
  have "\<forall>i. c \<le> i \<and> i < j \<longrightarrow> kill (mem ! i) = 0"
    using min by (simp add: P_def)
  then show ?thesis using Pj jk by (auto simp: P_def)
qed

lemma instControlUpdate_well_formed:
  assumes "well_formed mem"
  shows "instControlUpdate kill p maxInst mem clean =
     (if clean then Inr (UPDATED, mem[0 := 1, 1 := p])
      else if occupied mem < maxInst then
        (if occupied mem < 10 then
           Inr (UPDATED, mem[0 := word_of_int (occupied mem + 1), nat (occupied mem + 1) := p])
         else Inl MemoryFault)
      else checkInstances kill mem p)"
proof -
  have len: "length mem = 11" and lo: "0 \<le> sint (mem ! 0)" and hi: "sint (mem ! 0) \<le> 10"
    using assms by (simp_all add: well_formed_def occupied_def MAX_INSTANCES_def)
  have tr: "sint (ucast (mem ! 0) :: 32 word) = sint (mem ! 0)"
    using lo hi by (rule sint_ucast_small)
  have ne: "mem \<noteq> []" using len by auto
  show ?thesis
    using len lo hi ne by (simp add: instControlUpdate_def tr occupied_def Let_def)
qed

lemma checkInstances_cases:
  assumes wf: "well_formed mem"
  shows "(checkInstances kill mem p = Inr (WAITING, mem)
            \<and> (\<forall>i. 1 \<le> i \<and> int i \<le> occupied mem \<longrightarrow> kill (mem ! i) = 0))
         \<or> (\<exists>j. 1 \<le> j \<and> int j \<le> occupied mem \<and> kill (mem ! j) \<noteq> 0
               \<and> (\<forall>i. 1 \<le> i \<and> i < j \<longrightarrow> kill (mem ! i) = 0)
               \<and> checkInstances kill mem p = Inr (UPDATED, mem[j := p]))"
proof (cases "\<exists>k. 1 \<le> k \<and> int k \<le> occupied mem \<and> kill (mem ! k) \<noteq> 0")
  case True
  then obtain k where k: "1 \<le> k" "int k \<le> occupied mem" "kill (mem ! k) \<noteq> 0" by blast
  obtain j where j: "1 \<le> j" "j \<le> k" "kill (mem ! j) \<noteq> 0"
      "\<forall>i. 1 \<le> i \<and> i < j \<longrightarrow> kill (mem ! i) = 0"
    using first_dead_exists[of 1 k kill mem] k(1) k(3) by blast
  have jn: "int j \<le> sint (mem ! 0)" using j(2) k(2) by (simp add: occupied_def)
  have jl: "j < length mem"
    using jn wf by (simp add: well_formed_def occupied_def MAX_INSTANCES_def)
  have "checkInstances kill mem p = Inr (UPDATED, mem[j := p])"
    unfolding checkInstances_def by (rule loop_first_dead[OF j(1) jn jl j(3) j(4)])
  then show ?thesis using j jn by (auto simp: occupied_def)
next
  case False
  then have al: "\<forall>i. 1 \<le> i \<and> int i \<le> sint (mem ! 0) \<longrightarrow> kill (mem ! i) = 0"
    by (simp add: occupied_def)
  have ne: "mem \<noteq> []" using wf by (auto simp: well_formed_def)
  have lt: "sint (mem ! 0) < int (length mem)"
    using wf by (simp add: well_formed_def occupied_def MAX_INSTANCES_def)
  have "checkInstances kill mem p = Inr (WAITING, mem)"
    unfolding checkInstances_def by (rule loop_all_alive[OF ne lt al])
  then show ?thesis using al by (simp add: occupied_def)
qed

lemma slots_of_nth:
  assumes "nat (occupied mem) < length mem"
  shows "slots_of mem = map (\<lambda>i. mem ! Suc i) [0..<nat (occupied mem)]"
  using assms by (intro nth_equalityI) (simp_all add: slots_of_def nth_tl)

lemma length_slots_of:
  "well_formed mem \<Longrightarrow> length (slots_of mem) = nat (occupied mem)"
  by (auto simp: slots_of_def well_formed_def MAX_INSTANCES_def)

lemma fresh_result:
  assumes wf: "well_formed mem"
  shows "well_formed (mem[0 := 1, 1 := p])" "occupied (mem[0 := 1, 1 := p]) = 1"
    "slots_of (mem[0 := 1, 1 := p]) = [p]"
proof -
  have len: "length mem = 11" using wf by (simp add: well_formed_def)
  show o: "occupied (mem[0 := 1, 1 := p]) = 1"
    using len by (simp add: occupied_def)
  show "well_formed (mem[0 := 1, 1 := p])"
    using len o by (simp add: well_formed_def MAX_INSTANCES_def)
  show "slots_of (mem[0 := 1, 1 := p]) = [p]"
    using len o by (simp add: slots_of_nth)
qed

lemma append_result:
  fixes p :: qint64
  assumes wf: "well_formed mem" and lt: "occupied mem < 10"
  defines "mem' \<equiv> mem[0 := word_of_int (occupied mem + 1), nat (occupied mem + 1) := p]"
  shows "well_formed mem'" "occupied mem' = occupied mem + 1"
    "slots_of mem' = slots_of mem @ [p]" "mem' ! nat (occupied mem + 1) = p"
proof -
  have len: "length mem = 11" and lo: "0 \<le> occupied mem"
    using wf by (simp_all add: well_formed_def)
  have pos: "nat (occupied mem + 1) \<noteq> 0" using lo by simp
  have m0: "mem' ! 0 = word_of_int (occupied mem + 1)"
    using len pos by (simp add: mem'_def)
  have s: "sint (word_of_int (occupied mem + 1) :: 64 word) = occupied mem + 1"
    using lo lt by (intro sint_word_of_int_small) linarith+
  have "occupied mem' = sint (mem' ! 0)"
    by (simp add: occupied_def)
  also have "\<dots> = sint (word_of_int (occupied mem + 1) :: 64 word)"
    by (simp only: m0)
  finally show o: "occupied mem' = occupied mem + 1"
    using s by simp
  show "well_formed mem'"
    using len o lo lt by (simp add: well_formed_def mem'_def MAX_INSTANCES_def)
  show last: "mem' ! nat (occupied mem + 1) = p"
    using len lo lt by (simp add: mem'_def)
  have n': "nat (occupied mem') = Suc (nat (occupied mem))"
    using o lo by simp
  have keep: "mem' ! Suc i = mem ! Suc i" if "i < nat (occupied mem)" for i
    using that lo by (simp add: mem'_def)
  have "slots_of mem' = map (\<lambda>i. mem' ! Suc i) [0..<Suc (nat (occupied mem))]"
    using len lo lt n' by (simp add: slots_of_nth mem'_def)
  also have "\<dots> = map (\<lambda>i. mem' ! Suc i) [0..<nat (occupied mem)] @ [mem' ! Suc (nat (occupied mem))]"
    by simp
  also have "map (\<lambda>i. mem' ! Suc i) [0..<nat (occupied mem)] = map (\<lambda>i. mem ! Suc i) [0..<nat (occupied mem)]"
    using keep by simp
  also have "\<dots> = slots_of mem"
    using len lo lt by (simp add: slots_of_nth)
  also have "mem' ! Suc (nat (occupied mem)) = p"
  proof -
    have "Suc (nat (occupied mem)) = nat (occupied mem + 1)" using lo by linarith
    then show ?thesis using last by simp
  qed
  finally show "slots_of mem' = slots_of mem @ [p]" .
qed

lemma reclaim_result:
  assumes wf: "well_formed mem" and j: "1 \<le> j" "int j \<le> occupied mem"
  shows "well_formed (mem[j := p])" "occupied (mem[j := p]) = occupied mem"
    "slots_of (mem[j := p]) = (slots_of mem)[j - 1 := p]"
proof -
  have len: "length mem = 11" and hi: "occupied mem \<le> 10"
    using wf by (simp_all add: well_formed_def MAX_INSTANCES_def)
  show o: "occupied (mem[j := p]) = occupied mem"
    using j(1) by (simp add: occupied_def)
  show "well_formed (mem[j := p])"
    using wf o by (simp add: well_formed_def)
  have "slots_of (mem[j := p]) = map (\<lambda>i. mem[j := p] ! Suc i) [0..<nat (occupied mem)]"
    using len hi o by (simp add: slots_of_nth)
  also have "\<dots> = (map (\<lambda>i. mem ! Suc i) [0..<nat (occupied mem)])[j - 1 := p]"
    using j len hi by (intro nth_equalityI) (auto simp: nth_list_update)
  also have "map (\<lambda>i. mem ! Suc i) [0..<nat (occupied mem)] = slots_of mem"
    using len hi by (simp add: slots_of_nth)
  finally show "slots_of (mem[j := p]) = (slots_of mem)[j - 1 := p]" .
qed

lemma count_list_update_new:
  "p \<notin> set xs \<Longrightarrow> i < length xs \<Longrightarrow> count_list (xs[i := p]) p = 1"
proof (induction xs arbitrary: i)
  case Nil
  then show ?case by simp
next
  case (Cons x xs)
  then show ?case by (cases i) (auto simp: count_list_0_iff)
qed

lemma fresh_table_cells: "fresh_table = [0, 0, 0, 0, 0, 0, 0, 0, 0, 0, 0]"
  by (simp add: fresh_table_def numeral_eq_Suc)

lemmas table_defs = fresh_table_cells table_5_def table_5_7_def
lemmas probe_defs = probe_alive_def probe_dead5_def probe_dead7_def probe_dead7_99_def
lemmas run_defs = instControlUpdate_def checkInstances_def checkInstances_loop.simps
lemmas read_defs = well_formed_def occupied_def slots_of_def MAX_INSTANCES_def

lemma wf_tables: "well_formed fresh_table" "well_formed table_5" "well_formed table_5_7"
  by (simp_all add: table_defs read_defs)

subsection \<open>One admission step\<close>

text \<open>
  Claim C10. A single admission step is deterministic: \<open>instControlUpdate\<close> is a function
  of the table, the caller's identifier, \<open>maxInst\<close>, the just-created flag and the
  liveness of the recorded identifiers only. Two probes that agree, on every identifier
  recorded in slots 1 to the occupied-count, about which processes are alive give the
  same result and the same final table.
\<close>

theorem instControlUpdate_deterministic:
  assumes "\<forall>i. 1 \<le> i \<and> int i \<le> occupied mem \<and> i < length mem
              \<longrightarrow> (kill1 (mem ! i) = 0 \<longleftrightarrow> kill2 (mem ! i) = 0)"
  shows "instControlUpdate kill1 pid maxInst mem clean
           = instControlUpdate kill2 pid maxInst mem clean"
proof -
  have "checkInstances kill1 mem pid = checkInstances kill2 mem pid"
    unfolding checkInstances_def using assms by (intro loop_cong) (simp add: occupied_def)
  then show ?thesis
    by (simp only: instControlUpdate_def)
qed

theorem instControlUpdate_deterministic_witness:
  "instControlUpdate probe_dead7 9 2 table_5_7 False
     = instControlUpdate probe_dead7_99 9 2 table_5_7 False
   \<and> instControlUpdate probe_dead7 9 2 table_5_7 False
     = Inr (UPDATED, [2, 5, 9, 0, 0, 0, 0, 0, 0, 0, 0])"
proof -
  have h: "\<forall>i. 1 \<le> i \<and> int i \<le> occupied table_5_7 \<and> i < length table_5_7
              \<longrightarrow> (probe_dead7 (table_5_7 ! i) = 0 \<longleftrightarrow> probe_dead7_99 (table_5_7 ! i) = 0)"
  proof (intro allI impI)
    fix i :: nat
    assume "1 \<le> i \<and> int i \<le> occupied table_5_7 \<and> i < length table_5_7"
    then have "i = 1 \<or> i = 2"
      by (auto simp: table_defs read_defs)
    then show "probe_dead7 (table_5_7 ! i) = 0 \<longleftrightarrow> probe_dead7_99 (table_5_7 ! i) = 0"
      by (auto simp: table_defs probe_defs)
  qed
  have e: "instControlUpdate probe_dead7 9 2 table_5_7 False
     = Inr (UPDATED, [2, 5, 9, 0, 0, 0, 0, 0, 0, 0, 0])"
    by (simp add: run_defs table_defs probe_defs)
  show ?thesis
    using instControlUpdate_deterministic
      [where mem = table_5_7 and ?kill1.0 = probe_dead7 and ?kill2.0 = probe_dead7_99
         and pid = 9 and maxInst = 2 and clean = False, OF h] e
    by simp
qed

text \<open>
  Claim C4. On the reclamation path (occupied-count at least \<open>maxInst\<close>) of a
  well-formed table, when some recorded holder \<open>k\<close> is no longer alive, the attempt
  returns success after overwriting the first slot \<open>j\<close> in index order whose holder is
  not alive with the caller's identifier; the occupied-count and every other cell are
  unchanged.
\<close>

theorem reclamation_first_dead_slot:
  assumes wf: "well_formed mem" and full: "maxInst \<le> occupied mem"
    and k: "1 \<le> k" "int k \<le> occupied mem" and dead: "kill (mem ! k) \<noteq> 0"
  shows "\<exists>j. 1 \<le> j \<and> j \<le> k \<and> kill (mem ! j) \<noteq> 0
            \<and> (\<forall>i. 1 \<le> i \<and> i < j \<longrightarrow> kill (mem ! i) = 0)
            \<and> instControlUpdate kill pid maxInst mem False = Inr (UPDATED, mem[j := pid])
            \<and> occupied (mem[j := pid]) = occupied mem
            \<and> mem[j := pid] ! j = pid
            \<and> (\<forall>i. i \<noteq> j \<longrightarrow> mem[j := pid] ! i = mem ! i)"
proof -
  obtain j where j: "1 \<le> j" "j \<le> k" "kill (mem ! j) \<noteq> 0"
      "\<forall>i. 1 \<le> i \<and> i < j \<longrightarrow> kill (mem ! i) = 0"
    using first_dead_exists[of 1 k kill mem] k(1) dead by blast
  have jn: "int j \<le> sint (mem ! 0)" using j(2) k(2) by (simp add: occupied_def)
  have jl: "j < length mem"
    using jn wf by (simp add: read_defs)
  have "checkInstances kill mem pid = Inr (UPDATED, mem[j := pid])"
    unfolding checkInstances_def by (rule loop_first_dead[OF j(1) jn jl j(3) j(4)])
  then have r: "instControlUpdate kill pid maxInst mem False = Inr (UPDATED, mem[j := pid])"
    using full by (simp add: instControlUpdate_well_formed[OF wf])
  have o: "occupied (mem[j := pid]) = occupied mem"
    using j(1) by (simp add: occupied_def)
  have w: "mem[j := pid] ! j = pid" using jl by simp
  have "\<forall>i. i \<noteq> j \<longrightarrow> mem[j := pid] ! i = mem ! i" by simp
  then show ?thesis using j r o w by blast
qed

theorem reclamation_first_dead_slot_witness:
  "well_formed table_5_7 \<and> (2::int) \<le> occupied table_5_7 \<and> int 2 \<le> occupied table_5_7
   \<and> probe_dead7 (table_5_7 ! 2) \<noteq> 0
   \<and> (\<exists>j. 1 \<le> j \<and> j \<le> 2 \<and> probe_dead7 (table_5_7 ! j) \<noteq> 0
            \<and> (\<forall>i. 1 \<le> i \<and> i < j \<longrightarrow> probe_dead7 (table_5_7 ! i) = 0)
            \<and> instControlUpdate probe_dead7 9 2 table_5_7 False
                 = Inr (UPDATED, table_5_7[j := 9])
            \<and> occupied (table_5_7[j := 9]) = occupied table_5_7
            \<and> table_5_7[j := 9] ! j = 9
            \<and> (\<forall>i. i \<noteq> j \<longrightarrow> table_5_7[j := 9] ! i = table_5_7 ! i))"
proof -
  have h1: "well_formed table_5_7" by (rule wf_tables)
  have h2: "(2::int) \<le> occupied table_5_7" by (simp add: table_defs read_defs)
  have h3: "(1::nat) \<le> 2" by simp
  have h4: "int 2 \<le> occupied table_5_7" by (simp add: table_defs read_defs)
  have h5: "probe_dead7 (table_5_7 ! 2) \<noteq> 0" by (simp add: table_defs probe_defs)
  show ?thesis
    using h1 h2 h4 h5
      reclamation_first_dead_slot
        [where mem = table_5_7 and maxInst = 2 and k = 2 and kill = probe_dead7 and pid = 9,
         OF h1 h2 h3 h4 h5]
    by simp
qed

text \<open>
  Claim C6. With a valid \<open>maxInst\<close> on a well-formed table: on a table just created the
  caller writes its identifier into slot 1, sets the occupied-count to 1 and returns
  success; otherwise, when the occupied-count \<open>n\<close> is below \<open>maxInst\<close>, the caller
  writes its identifier into slot \<open>n + 1\<close>, sets the count to \<open>n + 1\<close> and returns
  success. Neither path probes a process or returns \<open>WAITING\<close>.
\<close>

theorem admission_below_maximum:
  assumes wf: "well_formed mem" and below: "occupied mem < maxInst"
    and valid: "maxInst \<le> MAX_INSTANCES"
  shows "instControlUpdate kill pid maxInst mem True = Inr (UPDATED, mem[0 := 1, 1 := pid])
       \<and> occupied (mem[0 := 1, 1 := pid]) = 1
       \<and> mem[0 := 1, 1 := pid] ! 1 = pid
       \<and> instControlUpdate kill pid maxInst mem False
           = Inr (UPDATED, mem[0 := word_of_int (occupied mem + 1),
                               nat (occupied mem + 1) := pid])
       \<and> occupied (mem[0 := word_of_int (occupied mem + 1), nat (occupied mem + 1) := pid])
           = occupied mem + 1
       \<and> mem[0 := word_of_int (occupied mem + 1), nat (occupied mem + 1) := pid]
           ! nat (occupied mem + 1) = pid"
proof -
  have lt: "occupied mem < 10" using below valid by (simp add: MAX_INSTANCES_def)
  have len: "length mem = 11" using wf by (simp add: well_formed_def)
  have a: "instControlUpdate kill pid maxInst mem True = Inr (UPDATED, mem[0 := 1, 1 := pid])"
    by (simp add: instControlUpdate_well_formed[OF wf])
  have b: "instControlUpdate kill pid maxInst mem False
           = Inr (UPDATED, mem[0 := word_of_int (occupied mem + 1),
                               nat (occupied mem + 1) := pid])"
    using below lt by (simp add: instControlUpdate_well_formed[OF wf])
  have c: "mem[0 := 1, 1 := pid] ! 1 = pid" using len by simp
  show ?thesis
    using a b c fresh_result(2)[OF wf, of pid] append_result(2,4)[OF wf lt, of pid]
    by simp
qed

theorem admission_below_maximum_witness:
  "well_formed table_5 \<and> occupied table_5 < 2 \<and> (2::int) \<le> MAX_INSTANCES
   \<and> instControlUpdate probe_alive 9 2 fresh_table True
       = Inr (UPDATED, [1, 9, 0, 0, 0, 0, 0, 0, 0, 0, 0])
   \<and> instControlUpdate probe_alive 9 2 table_5 False
       = Inr (UPDATED, [2, 5, 9, 0, 0, 0, 0, 0, 0, 0, 0])"
proof -
  have h1: "well_formed table_5" by (rule wf_tables)
  have h2: "occupied table_5 < 2" by (simp add: table_defs read_defs)
  have h3: "(2::int) \<le> MAX_INSTANCES" by (simp add: MAX_INSTANCES_def)
  have g1: "well_formed fresh_table" by (rule wf_tables)
  have g2: "occupied fresh_table < 2" by (simp add: table_defs read_defs)
  have t1: "fresh_table[0 := 1, 1 := 9] = [1, 9, 0, 0, 0, 0, 0, 0, 0, 0, 0]"
    by (simp add: table_defs)
  have t2: "table_5[0 := word_of_int (occupied table_5 + 1), nat (occupied table_5 + 1) := 9]
       = [2, 5, 9, 0, 0, 0, 0, 0, 0, 0, 0]"
    by (simp add: table_defs read_defs)
  show ?thesis
    using h1 h2 h3 t1 t2
      admission_below_maximum
        [where mem = table_5 and maxInst = 2 and kill = probe_alive and pid = 9, OF h1 h2 h3]
      admission_below_maximum
        [where mem = fresh_table and maxInst = 2 and kill = probe_alive and pid = 9,
         OF g1 g2 h3]
    by simp
qed

subsection \<open>Sequences of admission steps\<close>

lemma step_invariant:
  assumes m1: "1 \<le> maxInst" and m2: "maxInst \<le> MAX_INSTANCES"
    and wf: "well_formed mem" and le: "occupied mem \<le> maxInst"
  shows "\<exists>st mem'. instControlUpdate kill pid maxInst mem clean = Inr (st, mem')
            \<and> well_formed mem' \<and> occupied mem' \<le> maxInst"
proof (cases clean)
  case True
  then show ?thesis
    using fresh_result(1,2)[OF wf, of pid] m1
    by (simp add: instControlUpdate_well_formed[OF wf])
next
  case nc: False
  show ?thesis
  proof (cases "occupied mem < maxInst")
    case True
    then have lt: "occupied mem < 10" using m2 by (simp add: MAX_INSTANCES_def)
    show ?thesis
      using nc True lt append_result(1,2)[OF wf lt, of pid]
      by (simp add: instControlUpdate_well_formed[OF wf])
  next
    case False
    then have r: "instControlUpdate kill pid maxInst mem clean = checkInstances kill mem pid"
      using nc by (simp add: instControlUpdate_well_formed[OF wf])
    from checkInstances_cases[OF wf, of kill pid] show ?thesis
    proof
      assume "checkInstances kill mem pid = Inr (WAITING, mem)
            \<and> (\<forall>i. 1 \<le> i \<and> int i \<le> occupied mem \<longrightarrow> kill (mem ! i) = 0)"
      then show ?thesis using r wf le by simp
    next
      assume "\<exists>j. 1 \<le> j \<and> int j \<le> occupied mem \<and> kill (mem ! j) \<noteq> 0
               \<and> (\<forall>i. 1 \<le> i \<and> i < j \<longrightarrow> kill (mem ! i) = 0)
               \<and> checkInstances kill mem pid = Inr (UPDATED, mem[j := pid])"
      then obtain j where j: "1 \<le> j" "int j \<le> occupied mem"
        "checkInstances kill mem pid = Inr (UPDATED, mem[j := pid])" by blast
      show ?thesis
        using r j(3) reclaim_result(1,2)[OF wf j(1) j(2), of pid] le by simp
    qed
  qed
qed

lemma steps_invariant:
  assumes m1: "1 \<le> maxInst" and m2: "maxInst \<le> MAX_INSTANCES"
  shows "well_formed mem \<Longrightarrow> occupied mem \<le> maxInst \<Longrightarrow>
         \<exists>mem'. admission_steps maxInst mem steps = Inr mem'
            \<and> well_formed mem' \<and> occupied mem' \<le> maxInst"
proof (induction steps arbitrary: mem)
  case Nil
  then show ?case by simp
next
  case (Cons s steps)
  obtain kill pid clean where s: "s = (kill, pid, clean)" by (cases s)
  obtain st mem1 where one: "instControlUpdate kill pid maxInst mem clean = Inr (st, mem1)"
      "well_formed mem1" "occupied mem1 \<le> maxInst"
    using step_invariant[OF m1 m2 Cons.prems, of kill pid clean] by blast
  show ?case
    using Cons.IH[OF one(2) one(3)] one(1) by (simp add: s)
qed

text \<open>
  Claim C5. With one \<open>maxInst\<close> between 1 and \<open>MAX_INSTANCES\<close> passed by all
  participants, every sequence of admission steps on a well-formed table whose count is
  at most \<open>maxInst\<close> (a new table in particular) runs without fault, and after any
  number \<open>k\<close> of its steps the occupied-count is at most
  \<open>min maxInst MAX_INSTANCES\<close>, as is the number of distinct holders recorded in the
  occupied slots.
\<close>

theorem capacity_invariant:
  assumes m1: "1 \<le> maxInst" and m2: "maxInst \<le> MAX_INSTANCES"
    and wf: "well_formed mem" and le: "occupied mem \<le> maxInst"
  shows "\<exists>mem'. admission_steps maxInst mem (take k steps) = Inr mem'
            \<and> well_formed mem'
            \<and> occupied mem' \<le> min maxInst MAX_INSTANCES
            \<and> int (card (set (slots_of mem'))) \<le> min maxInst MAX_INSTANCES"
proof -
  obtain mem' where r: "admission_steps maxInst mem (take k steps) = Inr mem'"
      "well_formed mem'" "occupied mem' \<le> maxInst"
    using steps_invariant[OF m1 m2 wf le] by blast
  have "card (set (slots_of mem')) \<le> length (slots_of mem')" by (rule card_length)
  then have "int (card (set (slots_of mem'))) \<le> occupied mem'"
    using length_slots_of[OF r(2)] r(2) unfolding well_formed_def by linarith
  then show ?thesis using r m2 by auto
qed

theorem capacity_invariant_witness:
  "(1::int) \<le> 2 \<and> (2::int) \<le> MAX_INSTANCES \<and> well_formed fresh_table
   \<and> occupied fresh_table \<le> 2
   \<and> admission_steps 2 fresh_table (take 3 three_steps) = Inr table_5_7
   \<and> (\<exists>mem'. admission_steps 2 fresh_table (take 3 three_steps) = Inr mem'
            \<and> well_formed mem'
            \<and> occupied mem' \<le> min 2 MAX_INSTANCES
            \<and> int (card (set (slots_of mem'))) \<le> min 2 MAX_INSTANCES)"
proof -
  have h1: "(1::int) \<le> 2" by simp
  have h2: "(2::int) \<le> MAX_INSTANCES" by (simp add: MAX_INSTANCES_def)
  have h3: "well_formed fresh_table" by (rule wf_tables)
  have h4: "occupied fresh_table \<le> 2" by (simp add: table_defs read_defs)
  have e: "admission_steps 2 fresh_table (take 3 three_steps) = Inr table_5_7"
    by (simp add: three_steps_def run_defs table_defs probe_defs)
  show ?thesis
    using h1 h2 h3 h4 e
      capacity_invariant[where maxInst = 2 and mem = fresh_table and k = 3
        and steps = three_steps, OF h1 h2 h3 h4]
    by simp
qed

subsection \<open>What a successful step leaves in the table\<close>

text \<open>
  Claim C3 as stated fails. Process 5 holds slot 1 and has exited; process 9 asks with
  \<open>maxInst = 2\<close>. The count is below the maximum, so no slot is probed: process 9 is
  appended, the count becomes 2 and only one recorded holder is alive. And a caller
  whose identifier is already recorded (the system gave it the identifier of the former
  holder 5) is recorded a second time.
\<close>

theorem success_count_counterexample:
  "instControlUpdate probe_dead5 9 2 table_5 False = Inr (UPDATED, dead5_then_9)
   \<and> occupied dead5_then_9 = 2
   \<and> live_slots probe_dead5 dead5_then_9 = 1
   \<and> occupied dead5_then_9 \<noteq> int (live_slots probe_dead5 dead5_then_9)
   \<and> instControlUpdate probe_alive 5 2 table_5 False = Inr (UPDATED, table_5_5)
   \<and> count_list (slots_of table_5_5) 5 = 2"
  by (simp add: run_defs table_defs probe_defs dead5_then_9_def table_5_5_def live_slots_def
      read_defs)

text \<open>
  Claim C3, amended. When a step on a well-formed table returns success for a caller
  that is not yet recorded in an occupied slot (or on a table just created), the table
  stays well-formed, the caller is recorded in exactly one occupied slot, and the
  occupied-count is 1 on a table just created, \<open>n + 1\<close> when the former count \<open>n\<close> was
  below \<open>maxInst\<close>, and \<open>n\<close> on the reclamation path. Holders that have exited stay
  counted until a reclamation overwrites them: the number of live holders is at most
  the count.
\<close>

theorem success_occupies_slot:
  assumes wf: "well_formed mem"
    and ok: "instControlUpdate kill pid maxInst mem clean = Inr (UPDATED, mem')"
    and new: "clean \<or> pid \<notin> set (slots_of mem)"
  shows "well_formed mem'
       \<and> count_list (slots_of mem') pid = 1
       \<and> occupied mem' = (if clean then 1
                          else if occupied mem < maxInst then occupied mem + 1
                          else occupied mem)
       \<and> int (live_slots kill mem') \<le> occupied mem'"
proof -
  have live: "int (live_slots kill m) \<le> occupied m" if "well_formed m" for m
  proof -
    have "live_slots kill m \<le> length (slots_of m)"
      by (simp add: live_slots_def)
    then show ?thesis
      using length_slots_of[OF that] that unfolding well_formed_def by linarith
  qed
  have main: "well_formed mem'
       \<and> count_list (slots_of mem') pid = 1
       \<and> occupied mem' = (if clean then 1
                          else if occupied mem < maxInst then occupied mem + 1
                          else occupied mem)"
  proof (cases clean)
    case True
    then have "mem' = mem[0 := 1, 1 := pid]"
      using ok by (simp add: instControlUpdate_well_formed[OF wf])
    then show ?thesis
      using True fresh_result[OF wf, of pid] by simp
  next
    case nc: False
    then have fresh: "pid \<notin> set (slots_of mem)" using new by simp
    show ?thesis
    proof (cases "occupied mem < maxInst")
      case True
      have lt: "occupied mem < 10"
        using ok nc True wf
        by (cases "occupied mem < 10") (simp_all add: instControlUpdate_well_formed[OF wf])
      have "mem' = mem[0 := word_of_int (occupied mem + 1), nat (occupied mem + 1) := pid]"
        using ok nc True lt by (simp add: instControlUpdate_well_formed[OF wf])
      then show ?thesis
        using nc True fresh append_result(1,2,3)[OF wf lt, of pid]
        by (simp add: count_list_0_iff)
    next
      case False
      then have r: "checkInstances kill mem pid = Inr (UPDATED, mem')"
        using ok nc by (simp add: instControlUpdate_well_formed[OF wf])
      from checkInstances_cases[OF wf, of kill pid] obtain j where
        j: "1 \<le> j" "int j \<le> occupied mem" "mem' = mem[j := pid]"
        using r by auto
      have jl: "j - 1 < length (slots_of mem)"
        using j(1,2) length_slots_of[OF wf] by linarith
      show ?thesis
        using nc False j(3) reclaim_result[OF wf j(1) j(2), of pid]
          count_list_update_new[OF fresh jl]
        by simp
    qed
  qed
  then show ?thesis using live[of mem'] by simp
qed

theorem success_occupies_slot_witness:
  "well_formed table_5
   \<and> instControlUpdate probe_dead5 9 2 table_5 False = Inr (UPDATED, dead5_then_9)
   \<and> 9 \<notin> set (slots_of table_5)
   \<and> well_formed dead5_then_9
   \<and> count_list (slots_of dead5_then_9) 9 = 1
   \<and> occupied dead5_then_9 = occupied table_5 + 1
   \<and> int (live_slots probe_dead5 dead5_then_9) \<le> occupied dead5_then_9"
proof -
  have h1: "well_formed table_5" by (rule wf_tables)
  have h2: "instControlUpdate probe_dead5 9 2 table_5 False = Inr (UPDATED, dead5_then_9)"
    by (simp add: run_defs table_defs probe_defs dead5_then_9_def)
  have h3: "False \<or> 9 \<notin> set (slots_of table_5)"
    by (simp add: table_defs read_defs)
  have lt: "occupied table_5 < 2" by (simp add: table_defs read_defs)
  show ?thesis
    using h1 h2 h3 lt
      success_occupies_slot[where mem = table_5 and kill = probe_dead5 and pid = 9
        and maxInst = 2 and clean = False and mem' = dead5_then_9, OF h1 h2 h3]
    by simp
qed

subsection \<open>Traces of limitInstances\<close>

lemmas toInt_defs = toInt_def trimmed_def is_space_def is_digit_def digits_val_def digit_val_def
lemmas world_defs = no_env_def holder_exits_def no_segments_def testing_held_def
  empty_world_def held_world_def proc_9_def proc_9_unlocked_def args_11_def args_1_def
lemmas limit_defs = limitInstances_def created_def attached_def open_events_def
  lock_events_def close_events_def MAX_INSTANCES_def EXIT_SUCCESS_def EXIT_FAILURE_def

lemma toInt_examples:
  "toInt ''0'' = (0, True)" "toInt ''1'' = (1, True)" "toInt ''11'' = (11, True)"
  "toInt ''-1'' = (- 1, True)"
  by (simp_all add: toInt_defs)

lemma loop_status:
  "checkInstances_loop kill p mem c = Inr (st, mem') \<Longrightarrow> st = UPDATED \<or> st = WAITING"
proof (induction kill p mem c rule: checkInstances_loop.induct)
  case (1 kill p mem c)
  show ?case
  proof (cases "mem \<noteq> [] \<and> int c \<le> sint (mem ! 0) \<and> c < length mem \<and> kill (mem ! c) = 0")
    case True
    then have "checkInstances_loop kill p mem (Suc c) = Inr (st, mem')"
      using "1.prems" by (subst (asm) checkInstances_loop.simps) simp
    then show ?thesis using True by (intro "1.IH") simp_all
  next
    case False
    then show ?thesis
      using "1.prems" by (subst (asm) checkInstances_loop.simps) (auto split: if_splits)
  qed
qed

lemma instControlUpdate_status:
  "instControlUpdate kill p maxInst mem clean = Inr (st, mem') \<Longrightarrow> st = UPDATED \<or> st = WAITING"
  by (auto simp: instControlUpdate_def checkInstances_def Let_def split: if_splits
      dest: loop_status)

lemma retries_simps [simp]:
  "retries 0 = []" "retries (Suc k) = Update WAITING # Sleep 10 # retries k"
  by (simp_all add: retries_def)

lemma waitLoop_trace:
  "waitLoop env fuel i maxInst key att clean pid w = (r, w', evs) \<Longrightarrow>
   \<exists>k\<le>fuel. evs = retries k @ (if r = LoopLeft then [Update UPDATED] else [])
            \<and> (r = LoopRunning \<longrightarrow> k = fuel)"
proof (induction fuel arbitrary: i w r w' evs)
  case 0
  then show ?case by simp
next
  case (Suc fuel)
  let ?mem = "if att then (case segments w key of Some mem \<Rightarrow> mem | None \<Rightarrow> []) else []"
  show ?case
  proof (cases "instControlUpdate (kill0 w) pid maxInst ?mem clean")
    case (Inl f)
    then have "r = LoopFault" "evs = []" using Suc.prems by simp_all
    then show ?thesis by (intro exI[of _ 0]) simp
  next
    case (Inr sm)
    obtain st mem' where sm: "sm = (st, mem')" by (cases sm)
    have stc: "st = UPDATED \<or> st = WAITING"
      using Inr sm instControlUpdate_status by blast
    show ?thesis
    proof (cases "st = WAITING")
      case False
      then have "st = UPDATED" using stc by simp
      then have "r = LoopLeft" "evs = [Update UPDATED]"
        using Suc.prems Inr sm by simp_all
      then show ?thesis by (intro exI[of _ 0]) simp
    next
      case True
      obtain r1 w1 evs1 where rec:
        "waitLoop env fuel (Suc i) maxInst key att clean pid
           (env i (w\<lparr>segments := (segments w)(key \<mapsto> mem')\<rparr>)) = (r1, w1, evs1)"
        by (metis prod_cases3)
      have res: "r = r1" "evs = Update WAITING # Sleep 10 # evs1"
        using Suc.prems Inr sm True rec by (simp_all add: Let_def)
      obtain k where k: "k \<le> fuel"
        "evs1 = retries k @ (if r1 = LoopLeft then [Update UPDATED] else [])"
        "r1 = LoopRunning \<longrightarrow> k = fuel"
        using Suc.IH[OF rec] by blast
      show ?thesis
        using k res by (intro exI[of _ "Suc k"]) simp
    qed
  qed
qed

lemma limitInstances_trace:
  assumes parse: "toInt s = (maxInst, True)" and valid: "maxInst \<le> MAX_INSTANCES"
    and run: "limitInstances env fuel s key p w = (r, w', evs)"
  shows "\<exists>k\<le>fuel. evs = open_events p w key @ lock_events p @ retries k
               @ (if r = Returned EXIT_SUCCESS then Update UPDATED # close_events else [])
            \<and> (r = Running \<longrightarrow> k = fuel)
            \<and> (r = Returned EXIT_SUCCESS \<or> r = Crashed \<or> r = Running)"
proof -
  let ?w1 = "if created p w key then w\<lparr>segments := (segments w)(key \<mapsto> replicate 11 0)\<rparr> else w"
  obtain lr w2 evs2 where loop:
    "waitLoop env fuel 0 maxInst key (attached p w key) (created p w key) (applicationPid p) ?w1
       = (lr, w2, evs2)"
    by (metis prod_cases3)
  obtain k where k: "k \<le> fuel"
      "evs2 = retries k @ (if lr = LoopLeft then [Update UPDATED] else [])"
      "lr = LoopRunning \<longrightarrow> k = fuel"
    using waitLoop_trace[OF loop] by blast
  have nv: "\<not> MAX_INSTANCES < maxInst" using valid by simp
  show ?thesis
  proof (cases lr)
    case LoopLeft
    then have "r = Returned EXIT_SUCCESS"
        "evs = open_events p w key @ lock_events p @ evs2 @ close_events"
      using run parse nv loop by (simp_all add: limitInstances_def Let_def)
    then show ?thesis using k LoopLeft by (intro exI[of _ k]) simp
  next
    case LoopFault
    then have "r = Crashed" "evs = open_events p w key @ lock_events p @ evs2"
      using run parse nv loop by (simp_all add: limitInstances_def Let_def)
    then show ?thesis using k LoopFault by (intro exI[of _ k]) simp
  next
    case LoopRunning
    then have "r = Running" "evs = open_events p w key @ lock_events p @ evs2"
      using run parse nv loop by (simp_all add: limitInstances_def Let_def)
    then show ?thesis using k LoopRunning by (intro exI[of _ k]) simp
  qed
qed

lemma limitInstances_valid:
  assumes parse: "toInt s = (maxInst, True)" and valid: "maxInst \<le> MAX_INSTANCES"
    and loop: "waitLoop env fuel 0 maxInst key (attached p w key) (created p w key)
                 (applicationPid p)
                 (if created p w key
                  then w\<lparr>segments := (segments w)(key \<mapsto> replicate 11 0)\<rparr> else w)
               = (lr, w2, evs2)"
  shows "limitInstances env fuel s key p w
         = (outcome_of lr, w2,
            open_events p w key @ lock_events p @ evs2
              @ (if lr = LoopLeft then close_events else []))"
proof -
  have nv: "\<not> MAX_INSTANCES < maxInst" using valid by simp
  show ?thesis
    using parse nv loop
    by (cases lr) (simp_all add: limitInstances_def Let_def outcome_of_def)
qed

lemma limitInstances_invalid:
  assumes parse: "toInt s = (maxInst, ok)" and bad: "\<not> ok \<or> MAX_INSTANCES < maxInst"
  shows "limitInstances env fuel s key p w = (Returned EXIT_FAILURE, w, [])"
  using assms by (auto simp: limitInstances_def)

lemma open_events_sleeps_locked [simp]:
  "sleeps_locked h (open_events p w key @ es) = sleeps_locked h es"
  by (simp add: open_events_def)

lemma open_events_sleeps_unlocked [simp]:
  "sleeps_unlocked h (open_events p w key @ es) = sleeps_unlocked h es"
  by (simp add: open_events_def)

lemma open_events_updates_locked [simp]:
  "updates_locked h (open_events p w key @ es) = updates_locked h es"
  by (simp add: open_events_def)

lemma retries_sleeps_locked [simp]:
  "sleeps_locked True (retries k @ es) = sleeps_locked True es"
  by (induction k) simp_all

lemma retries_sleeps_unlocked [simp]:
  "sleeps_unlocked True (retries k @ es) = (k = 0 \<and> sleeps_unlocked True es)"
  by (cases k) simp_all

lemma retries_updates_locked [simp]:
  "updates_locked True (retries k @ es) = updates_locked True es"
  by (induction k) simp_all

lemma retries_updates_unlocked [simp]:
  "updates_locked False (retries k @ es) = (k = 0 \<and> updates_locked False es)"
  by (cases k) simp_all

lemma set_retries: "set (retries k) = (if k = 0 then {} else {Update WAITING, Sleep 10})"
  by (induction k) auto

lemma count_retries [simp]:
  "count_list (retries k) (Lock b) = 0" "count_list (retries k) Unlock = 0"
  by (induction k) simp_all

lemma count_open_events [simp]:
  "count_list (open_events p w key) (Lock b) = 0" "count_list (open_events p w key) Unlock = 0"
  by (simp_all add: open_events_def)

lemma set_open_events:
  "Sleep n \<notin> set (open_events p w key)" "Lock b \<notin> set (open_events p w key)"
  "Update st \<notin> set (open_events p w key)"
  by (simp_all add: open_events_def)

lemma filter_open_events:
  "filter (\<lambda>e. \<not> is_lock_event e) (open_events p w key) = open_events p w key"
  by (simp add: open_events_def is_lock_event_def)

lemma held_forever:
  "waitLoop no_env n i 1 ''testing'' True False 9 held_world
     = (LoopRunning, held_world, retries n)"
proof (induction n arbitrary: i)
  case 0
  then show ?case by simp
next
  case (Suc n)
  have step: "instControlUpdate probe_alive 9 1 table_5 False = Inr (WAITING, table_5)"
    by (simp add: run_defs table_defs probe_defs)
  have same: "held_world\<lparr>segments := (segments held_world)(''testing'' \<mapsto> table_5)\<rparr>
                = held_world"
    by (simp add: held_world_def testing_held_def fun_eq_iff)
  show ?case
    using Suc[of "Suc i"] step same
    by (simp add: no_env_def held_world_def testing_held_def)
qed

subsection \<open>The first attempt that does not fail\<close>

lemma loop_waiting_same:
  "checkInstances_loop kill p mem c = Inr (WAITING, mem') \<Longrightarrow> mem' = mem"
proof (induction kill p mem c rule: checkInstances_loop.induct)
  case (1 kill p mem c)
  show ?case
  proof (cases "mem \<noteq> [] \<and> int c \<le> sint (mem ! 0) \<and> c < length mem \<and> kill (mem ! c) = 0")
    case True
    then have "checkInstances_loop kill p mem (Suc c) = Inr (WAITING, mem')"
      using "1.prems" by (subst (asm) checkInstances_loop.simps) simp
    then show ?thesis using True by (intro "1.IH") simp_all
  next
    case False
    then show ?thesis
      using "1.prems" by (subst (asm) checkInstances_loop.simps) (auto split: if_splits)
  qed
qed

lemma instControlUpdate_waiting:
  assumes "instControlUpdate kill p maxInst mem clean = Inr (WAITING, mem')"
  shows "mem' = mem \<and> mem \<noteq> []"
  using assms
  by (auto simp: instControlUpdate_def checkInstances_def Let_def split: if_splits
      dest: loop_waiting_same)

lemma waiting_world_same:
  assumes "instControlUpdate (kill0 w) pid maxInst
             (if att then (case segments w key of Some mem \<Rightarrow> mem | None \<Rightarrow> []) else [])
             clean = Inr (WAITING, mem')"
  shows "w\<lparr>segments := (segments w)(key \<mapsto> mem')\<rparr> = w"
proof -
  have m: "mem' = (if att then (case segments w key of Some mem \<Rightarrow> mem | None \<Rightarrow> []) else [])"
    and ne: "(if att then (case segments w key of Some mem \<Rightarrow> mem | None \<Rightarrow> []) else []) \<noteq> []"
    using instControlUpdate_waiting[OF assms] by simp_all
  have "segments w key = Some mem'"
    using m ne by (auto split: if_splits option.splits)
  then have "(segments w)(key \<mapsto> mem') = segments w"
    by (rule map_upd_triv)
  then show ?thesis by simp
qed

lemma world_before_shift:
  "world_before (\<lambda>j. env (i + j)) w (Suc j) = world_before (\<lambda>j. env (Suc i + j)) (env i w) j"
  by (induction j) simp_all

lemma attempt_shift:
  "attempt (\<lambda>j. env (i + j)) maxInst key att clean pid w (Suc j)
     = attempt (\<lambda>j. env (Suc i + j)) maxInst key att clean pid (env i w) j"
  unfolding attempt_def world_before_shift ..

lemma attempt_fails_shift:
  "attempt_fails (\<lambda>j. env (i + j)) maxInst key att clean pid w (Suc j)
     = attempt_fails (\<lambda>j. env (Suc i + j)) maxInst key att clean pid (env i w) j"
  unfolding attempt_fails_def attempt_shift ..

lemma loop_end_Suc:
  assumes "loop_end (\<lambda>j. env (Suc i + j)) fuel maxInst key att clean pid (env i w) k
             = (r, w', evs)"
  shows "loop_end (\<lambda>j. env (i + j)) (Suc fuel) maxInst key att clean pid w (Suc k)
             = (r, w', Update WAITING # Sleep 10 # evs)"
  using assms unfolding loop_end_def attempt_shift world_before_shift
  by (auto split: if_splits sum.splits prod.splits)

lemma waitLoop_first:
  "\<exists>k\<le>fuel.
      (\<forall>j<k. attempt_fails (\<lambda>j. env (i + j)) maxInst key att clean pid w j)
    \<and> (k < fuel \<longrightarrow> \<not> attempt_fails (\<lambda>j. env (i + j)) maxInst key att clean pid w k)
    \<and> waitLoop env fuel i maxInst key att clean pid w
        = loop_end (\<lambda>j. env (i + j)) fuel maxInst key att clean pid w k"
proof (induction fuel arbitrary: i w)
  case 0
  show ?case by (simp add: loop_end_def)
next
  case (Suc fuel)
  let ?E = "\<lambda>j. env (i + j)"
  let ?mem = "if att then (case segments w key of Some mem \<Rightarrow> mem | None \<Rightarrow> []) else []"
  have a0: "attempt ?E maxInst key att clean pid w 0
              = instControlUpdate (kill0 w) pid maxInst ?mem clean"
    by (simp add: attempt_def)
  show ?case
  proof (cases "instControlUpdate (kill0 w) pid maxInst ?mem clean")
    case (Inl f)
    then have "waitLoop env (Suc fuel) i maxInst key att clean pid w
                = loop_end ?E (Suc fuel) maxInst key att clean pid w 0"
      using a0 by (simp add: loop_end_def)
    moreover have "\<not> attempt_fails ?E maxInst key att clean pid w 0"
      using a0 Inl by (simp add: attempt_fails_def)
    ultimately show ?thesis by (intro exI[of _ 0]) simp
  next
    case (Inr sm)
    obtain st mem' where sm: "sm = (st, mem')" by (cases sm)
    have stc: "st = UPDATED \<or> st = WAITING"
      using Inr sm instControlUpdate_status by blast
    show ?thesis
    proof (cases "st = WAITING")
      case False
      then have u: "st = UPDATED" using stc by simp
      have "waitLoop env (Suc fuel) i maxInst key att clean pid w
                = loop_end ?E (Suc fuel) maxInst key att clean pid w 0"
        using a0 Inr sm u by (simp add: loop_end_def)
      moreover have "\<not> attempt_fails ?E maxInst key att clean pid w 0"
        using a0 Inr sm u by (simp add: attempt_fails_def)
      ultimately show ?thesis by (intro exI[of _ 0]) simp
    next
      case True
      have same: "w\<lparr>segments := (segments w)(key \<mapsto> mem')\<rparr> = w"
        using Inr sm True by (intro waiting_world_same[of w pid maxInst att key clean]) simp
      have f0: "attempt_fails ?E maxInst key att clean pid w 0"
        using a0 Inr sm True by (simp add: attempt_fails_def)
      obtain k where k: "k \<le> fuel"
        "\<forall>j<k. attempt_fails (\<lambda>j. env (Suc i + j)) maxInst key att clean pid (env i w) j"
        "k < fuel \<longrightarrow> \<not> attempt_fails (\<lambda>j. env (Suc i + j)) maxInst key att clean pid (env i w) k"
        "waitLoop env fuel (Suc i) maxInst key att clean pid (env i w)
           = loop_end (\<lambda>j. env (Suc i + j)) fuel maxInst key att clean pid (env i w) k"
        using Suc.IH[of "Suc i" "env i w"] by blast
      obtain r w2 evs where le: "loop_end (\<lambda>j. env (Suc i + j)) fuel maxInst key att clean pid
                                  (env i w) k = (r, w2, evs)"
        by (metis prod_cases3)
      have wl: "waitLoop env (Suc fuel) i maxInst key att clean pid w
                  = (r, w2, Update WAITING # Sleep 10 # evs)"
        using Inr sm True same k(4) le by (simp add: Let_def)
      have res: "waitLoop env (Suc fuel) i maxInst key att clean pid w
                  = loop_end ?E (Suc fuel) maxInst key att clean pid w (Suc k)"
        using wl loop_end_Suc[OF le] by simp
      have all: "\<forall>j<Suc k. attempt_fails ?E maxInst key att clean pid w j"
      proof (intro allI impI)
        fix j assume "j < Suc k"
        then show "attempt_fails ?E maxInst key att clean pid w j"
          using f0 k(2) by (cases j) (simp_all add: attempt_fails_shift)
      qed
      have nxt: "Suc k < Suc fuel \<longrightarrow> \<not> attempt_fails ?E maxInst key att clean pid w (Suc k)"
        using k(3) by (simp add: attempt_fails_shift)
      show ?thesis
        using k(1) all nxt res by (intro exI[of _ "Suc k"]) simp
    qed
  qed
qed

lemma toInt_two: "toInt ''2'' = (2, True)"
  by (simp add: toInt_defs)

lemma world_before_no_env [simp]: "world_before no_env w j = w"
  by (induction j) (simp_all add: no_env_def)

lemma filter_events_open [simp]:
  "filter lock_or_table_event (open_events p w key) = []"
  by (simp add: open_events_def)

lemma filter_events_retries [simp]:
  "filter lock_or_table_event (retries k) = retries k"
  by (induction k) simp_all

lemma retries_updates_unlocked_free [simp]:
  "updates_unlocked False (retries k @ es) = updates_unlocked False es"
  by (induction k) simp_all

lemma open_events_updates_unlocked [simp]:
  "updates_unlocked h (open_events p w key @ es) = updates_unlocked h es"
  by (simp add: open_events_def)

lemma limitInstances_first:
  assumes parse: "toInt s = (maxInst, True)" and valid: "maxInst \<le> MAX_INSTANCES"
  shows "\<exists>k\<le>fuel.
      (\<forall>j<k. attempt_fails env maxInst key (attached p w key) (created p w key)
                (applicationPid p) (created_world p w key) j)
    \<and> (k < fuel \<longrightarrow> \<not> attempt_fails env maxInst key (attached p w key) (created p w key)
                (applicationPid p) (created_world p w key) k)
    \<and> limitInstances env fuel s key p w
        = (if k = fuel
           then (Running, world_before env (created_world p w key) k,
                 open_events p w key @ lock_events p @ retries k)
           else case attempt env maxInst key (attached p w key) (created p w key)
                       (applicationPid p) (created_world p w key) k of
                  Inl f \<Rightarrow> (Crashed, world_before env (created_world p w key) k,
                            open_events p w key @ lock_events p @ retries k)
                | Inr (st, mem') \<Rightarrow>
                    (Returned EXIT_SUCCESS,
                     (world_before env (created_world p w key) k)
                       \<lparr>segments := (segments (world_before env (created_world p w key) k))
                                      (key \<mapsto> mem')\<rparr>,
                     open_events p w key @ lock_events p @ retries k
                       @ Update UPDATED # close_events))"
proof -
  let ?att = "attached p w key" and ?cl = "created p w key" and ?pid = "applicationPid p"
  let ?w1 = "created_world p w key"
  obtain k where k: "k \<le> fuel"
      "\<forall>j<k. attempt_fails (\<lambda>j. env (0 + j)) maxInst key ?att ?cl ?pid ?w1 j"
      "k < fuel \<longrightarrow> \<not> attempt_fails (\<lambda>j. env (0 + j)) maxInst key ?att ?cl ?pid ?w1 k"
      "waitLoop env fuel 0 maxInst key ?att ?cl ?pid ?w1
         = loop_end (\<lambda>j. env (0 + j)) fuel maxInst key ?att ?cl ?pid ?w1 k"
    using waitLoop_first[of fuel env 0 maxInst key ?att ?cl ?pid ?w1] by blast
  have eta: "(\<lambda>j. env (0 + j)) = env" by simp
  note k' = k[unfolded eta]
  obtain lr w2 evs2 where le: "loop_end env fuel maxInst key ?att ?cl ?pid ?w1 k = (lr, w2, evs2)"
    by (metis prod_cases3)
  have loop: "waitLoop env fuel 0 maxInst key ?att ?cl ?pid
                (if created p w key
                 then w\<lparr>segments := (segments w)(key \<mapsto> replicate 11 0)\<rparr> else w)
              = (lr, w2, evs2)"
    using k'(4) le by (simp add: created_world_def)
  have lim: "limitInstances env fuel s key p w
         = (outcome_of lr, w2,
            open_events p w key @ lock_events p @ evs2
              @ (if lr = LoopLeft then close_events else []))"
    by (rule limitInstances_valid[OF parse valid loop])
  have "limitInstances env fuel s key p w
        = (if k = fuel
           then (Running, world_before env ?w1 k,
                 open_events p w key @ lock_events p @ retries k)
           else case attempt env maxInst key ?att ?cl ?pid ?w1 k of
                  Inl f \<Rightarrow> (Crashed, world_before env ?w1 k,
                            open_events p w key @ lock_events p @ retries k)
                | Inr (st, mem') \<Rightarrow>
                    (Returned EXIT_SUCCESS,
                     (world_before env ?w1 k)
                       \<lparr>segments := (segments (world_before env ?w1 k))(key \<mapsto> mem')\<rparr>,
                     open_events p w key @ lock_events p @ retries k
                       @ Update UPDATED # close_events))"
    using le unfolding lim loop_end_def
    by (auto simp: outcome_of_def split: if_splits sum.splits prod.splits)
  then show ?thesis using k'(1,2,3) by blast
qed

lemma lock_failure_same_run:
  assumes fails: "lock_fails p"
    and parse: "toInt s = (maxInst, True)" and valid: "maxInst \<le> MAX_INSTANCES"
    and run: "limitInstances env fuel s key p w = (r, w', evs)"
  shows "r \<noteq> Returned EXIT_FAILURE
       \<and> Lock False \<in> set evs \<and> Debug ''lock:'' \<in> set evs \<and> Lock True \<notin> set evs
       \<and> (\<exists>evs0. limitInstances env fuel s key (p\<lparr>lock_fails := False\<rparr>) w = (r, w', evs0)
             \<and> filter (\<lambda>e. \<not> is_lock_event e) evs0 = filter (\<lambda>e. \<not> is_lock_event e) evs
             \<and> updates_locked False evs0)
       \<and> (r = Returned EXIT_SUCCESS \<longrightarrow> \<not> updates_locked False evs)"
proof -
  let ?p0 = "p\<lparr>lock_fails := False\<rparr>"
  let ?w1 = "if created p w key
             then w\<lparr>segments := (segments w)(key \<mapsto> replicate 11 0)\<rparr> else w"
  obtain lr w2 evs2 where loop:
    "waitLoop env fuel 0 maxInst key (attached p w key) (created p w key) (applicationPid p) ?w1
       = (lr, w2, evs2)"
    by (metis prod_cases3)
  obtain k where k: "evs2 = retries k @ (if lr = LoopLeft then [Update UPDATED] else [])"
    using waitLoop_trace[OF loop] by blast
  have same: "created ?p0 w key = created p w key" "attached ?p0 w key = attached p w key"
    "applicationPid ?p0 = applicationPid p" "open_events ?p0 w key = open_events p w key"
    by (simp_all add: created_def attached_def open_events_def)
  have loop0:
    "waitLoop env fuel 0 maxInst key (attached ?p0 w key) (created ?p0 w key)
       (applicationPid ?p0)
       (if created ?p0 w key
        then w\<lparr>segments := (segments w)(key \<mapsto> replicate 11 0)\<rparr> else w)
       = (lr, w2, evs2)"
    unfolding same by (rule loop)
  have le: "lock_events p = [Lock False, Debug ''lock:'', Debug ''control update'']"
    using fails by (simp add: lock_events_def)
  have le0: "lock_events ?p0 = [Lock True, Debug ''control update'']"
    by (simp add: lock_events_def)
  define tail where "tail = (if lr = LoopLeft then close_events else [])"
  have r1: "limitInstances env fuel s key p w
      = (outcome_of lr, w2, open_events p w key @ lock_events p @ evs2 @ tail)"
    unfolding tail_def by (rule limitInstances_valid[OF parse valid loop])
  have r0: "limitInstances env fuel s key ?p0 w
      = (outcome_of lr, w2, open_events p w key @ lock_events ?p0 @ evs2 @ tail)"
    using limitInstances_valid[OF parse valid loop0] unfolding tail_def same by simp
  have r: "r = outcome_of lr" and w': "w' = w2"
    and evs: "evs = open_events p w key @ lock_events p @ evs2 @ tail"
    using run r1 by simp_all
  have nf: "r \<noteq> Returned EXIT_FAILURE"
    unfolding r by (cases lr) (simp_all add: outcome_of_def EXIT_SUCCESS_def EXIT_FAILURE_def)
  have mem: "Lock False \<in> set evs" "Debug ''lock:'' \<in> set evs"
    unfolding evs le by simp_all
  have nolock: "Lock True \<notin> set evs"
    unfolding evs le k tail_def
    by (auto simp: set_open_events set_retries close_events_def split: if_splits)
  have filt: "filter (\<lambda>e. \<not> is_lock_event e)
                (open_events p w key @ lock_events ?p0 @ evs2 @ tail)
              = filter (\<lambda>e. \<not> is_lock_event e) evs"
    unfolding evs le le0 by (simp add: is_lock_event_def)
  have held: "updates_locked False (open_events p w key @ lock_events ?p0 @ evs2 @ tail)"
    unfolding le0 k tail_def by (simp add: close_events_def)
  have unheld: "\<not> updates_locked False evs" if "r = Returned EXIT_SUCCESS"
  proof -
    have "lr = LoopLeft"
      using that unfolding r by (cases lr) (simp_all add: outcome_of_def)
    then show ?thesis unfolding evs le k by simp
  qed
  show ?thesis
    using nf mem nolock r0 filt held unheld unfolding r w' by blast
qed

subsection \<open>The blocking loop\<close>

text \<open>
  Claim C7. Once the configured maximum is accepted, a \<open>WAITING\<close> answer is never
  returned to the caller of \<open>limitInstances\<close>: after every attempt that fails the
  process sleeps 10 seconds and makes the next attempt, and the call ends only at the
  first attempt \<open>k\<close> that does not fail, returning \<open>EXIT_SUCCESS\<close> with the table that
  attempt wrote (or stopping at the fault of that attempt). There is no bound on the
  number of attempts: whenever the first \<open>n\<close> attempts fail, the call is still in the
  loop after them, for every \<open>n\<close>; with a live holder and \<open>maxInst = 1\<close> that is so for
  all \<open>n\<close>.
\<close>

theorem blocking_wait_unbounded:
  assumes parse: "toInt s = (maxInst, True)" and valid: "maxInst \<le> MAX_INSTANCES"
  shows "(\<exists>k\<le>fuel.
            (\<forall>j<k. attempt_fails env maxInst key (attached p w key) (created p w key)
                      (applicationPid p) (created_world p w key) j)
          \<and> (k < fuel \<longrightarrow> \<not> attempt_fails env maxInst key (attached p w key) (created p w key)
                      (applicationPid p) (created_world p w key) k)
          \<and> limitInstances env fuel s key p w
              = (if k = fuel
                 then (Running, world_before env (created_world p w key) k,
                       open_events p w key @ lock_events p @ retries k)
                 else case attempt env maxInst key (attached p w key) (created p w key)
                             (applicationPid p) (created_world p w key) k of
                        Inl f \<Rightarrow> (Crashed, world_before env (created_world p w key) k,
                                  open_events p w key @ lock_events p @ retries k)
                      | Inr (st, mem') \<Rightarrow>
                          (Returned EXIT_SUCCESS,
                           (world_before env (created_world p w key) k)
                             \<lparr>segments := (segments (world_before env (created_world p w key) k))
                                            (key \<mapsto> mem')\<rparr>,
                           open_events p w key @ lock_events p @ retries k
                             @ Update UPDATED # close_events)))
       \<and> fst (limitInstances env fuel s key p w) \<noteq> Returned EXIT_FAILURE
       \<and> ((\<forall>j<n. attempt_fails env maxInst key (attached p w key) (created p w key)
                    (applicationPid p) (created_world p w key) j)
            \<longrightarrow> limitInstances env n s key p w
                  = (Running, world_before env (created_world p w key) n,
                     open_events p w key @ lock_events p @ retries n))
       \<and> limitInstances no_env n ''1'' ''testing'' proc_9 held_world
           = (Running, held_world,
              open_events proc_9 held_world ''testing'' @ lock_events proc_9 @ retries n)"
proof -
  note first = limitInstances_first[OF parse valid]
  have a: "\<exists>k\<le>fuel.
            (\<forall>j<k. attempt_fails env maxInst key (attached p w key) (created p w key)
                      (applicationPid p) (created_world p w key) j)
          \<and> (k < fuel \<longrightarrow> \<not> attempt_fails env maxInst key (attached p w key) (created p w key)
                      (applicationPid p) (created_world p w key) k)
          \<and> limitInstances env fuel s key p w
              = (if k = fuel
                 then (Running, world_before env (created_world p w key) k,
                       open_events p w key @ lock_events p @ retries k)
                 else case attempt env maxInst key (attached p w key) (created p w key)
                             (applicationPid p) (created_world p w key) k of
                        Inl f \<Rightarrow> (Crashed, world_before env (created_world p w key) k,
                                  open_events p w key @ lock_events p @ retries k)
                      | Inr (st, mem') \<Rightarrow>
                          (Returned EXIT_SUCCESS,
                           (world_before env (created_world p w key) k)
                             \<lparr>segments := (segments (world_before env (created_world p w key) k))
                                            (key \<mapsto> mem')\<rparr>,
                           open_events p w key @ lock_events p @ retries k
                             @ Update UPDATED # close_events))"
    by (rule first)
  have b: "fst (limitInstances env fuel s key p w) \<noteq> Returned EXIT_FAILURE"
  proof -
    obtain r w' evs where run: "limitInstances env fuel s key p w = (r, w', evs)"
      by (metis prod_cases3)
    have "r = Returned EXIT_SUCCESS \<or> r = Crashed \<or> r = Running"
      using limitInstances_trace[OF parse valid run] by blast
    then show ?thesis
      using run by (auto simp: EXIT_SUCCESS_def EXIT_FAILURE_def)
  qed
  have c: "limitInstances env n s key p w
                  = (Running, world_before env (created_world p w key) n,
                     open_events p w key @ lock_events p @ retries n)"
    if all: "\<forall>j<n. attempt_fails env maxInst key (attached p w key) (created p w key)
                    (applicationPid p) (created_world p w key) j"
  proof -
    obtain k where k: "k \<le> n"
      "k < n \<longrightarrow> \<not> attempt_fails env maxInst key (attached p w key) (created p w key)
                      (applicationPid p) (created_world p w key) k"
      "limitInstances env n s key p w
              = (if k = n
                 then (Running, world_before env (created_world p w key) k,
                       open_events p w key @ lock_events p @ retries k)
                 else case attempt env maxInst key (attached p w key) (created p w key)
                             (applicationPid p) (created_world p w key) k of
                        Inl f \<Rightarrow> (Crashed, world_before env (created_world p w key) k,
                                  open_events p w key @ lock_events p @ retries k)
                      | Inr (st, mem') \<Rightarrow>
                          (Returned EXIT_SUCCESS,
                           (world_before env (created_world p w key) k)
                             \<lparr>segments := (segments (world_before env (created_world p w key) k))
                                            (key \<mapsto> mem')\<rparr>,
                           open_events p w key @ lock_events p @ retries k
                             @ Update UPDATED # close_events))"
      using limitInstances_first[OF parse valid, of n env key p w] by blast
    have "k = n" using k(1,2) all by (cases "k < n") auto
    then show ?thesis using k(3) by simp
  qed
  have cr: "created proc_9 held_world ''testing'' = False"
    and at: "attached proc_9 held_world ''testing'' = True"
    by (simp_all add: created_def attached_def world_defs)
  have pid: "applicationPid proc_9 = 9" by (simp add: proc_9_def)
  have loop: "waitLoop no_env n 0 1 ''testing'' (attached proc_9 held_world ''testing'')
                 (created proc_9 held_world ''testing'') (applicationPid proc_9)
                 (if created proc_9 held_world ''testing''
                  then held_world\<lparr>segments := (segments held_world)(''testing'' \<mapsto> replicate 11 0)\<rparr>
                  else held_world)
               = (LoopRunning, held_world, retries n)"
    unfolding cr at pid using held_forever[of n 0] by simp
  have one: "(1::int) \<le> MAX_INSTANCES" by (simp add: MAX_INSTANCES_def)
  have d: "limitInstances no_env n ''1'' ''testing'' proc_9 held_world
           = (Running, held_world,
              open_events proc_9 held_world ''testing'' @ lock_events proc_9 @ retries n)"
    using limitInstances_valid[OF toInt_examples(2) one loop]
    by (simp add: outcome_of_def)
  show ?thesis using a b c d by blast
qed

theorem blocking_wait_unbounded_witness:
  "toInt ''2'' = (2, True) \<and> (2::int) \<le> MAX_INSTANCES
   \<and> limitInstances no_env 3 ''2'' ''testing'' proc_9 full_world
       = (Running, full_world,
          [Debug ''key:'', Create False, Attach True, Lock True, Debug ''control update'',
           Update WAITING, Sleep 10, Update WAITING, Sleep 10, Update WAITING, Sleep 10])
   \<and> limitInstances holder_exits 2 ''1'' ''testing'' proc_9 held_world
       = (Returned EXIT_SUCCESS,
          fst (snd (limitInstances holder_exits 2 ''1'' ''testing'' proc_9 held_world)),
          [Debug ''key:'', Create False, Attach True, Lock True, Debug ''control update'',
           Update WAITING, Sleep 10, Update UPDATED,
           Unlock, Debug ''memoria unlocada'', Detach])"
proof -
  have h1: "toInt ''2'' = (2, True)" by (rule toInt_two)
  have h2: "(2::int) \<le> MAX_INSTANCES" by (simp add: MAX_INSTANCES_def)
  have cw: "created_world proc_9 full_world ''testing'' = full_world"
    by (simp add: created_world_def created_def full_world_def testing_full_def)
  have hf: "\<forall>j<3. attempt_fails no_env 2 ''testing'' (attached proc_9 full_world ''testing'')
                (created proc_9 full_world ''testing'') (applicationPid proc_9)
                (created_world proc_9 full_world ''testing'') j"
    unfolding attempt_fails_def attempt_def cw world_before_no_env
    by (simp add: created_def attached_def full_world_def testing_full_def proc_9_def
        run_defs table_defs probe_defs)
  note t = blocking_wait_unbounded[OF h1 h2, where n = 3 and env = no_env
      and key = "''testing''" and p = proc_9 and w = full_world]
  from t hf have "limitInstances no_env 3 ''2'' ''testing'' proc_9 full_world
                  = (Running, world_before no_env (created_world proc_9 full_world ''testing'') 3,
                     open_events proc_9 full_world ''testing'' @ lock_events proc_9 @ retries 3)"
    by blast
  then have e1: "limitInstances no_env 3 ''2'' ''testing'' proc_9 full_world
       = (Running, full_world,
          [Debug ''key:'', Create False, Attach True, Lock True, Debug ''control update'',
           Update WAITING, Sleep 10, Update WAITING, Sleep 10, Update WAITING, Sleep 10])"
    unfolding cw world_before_no_env
    by (simp add: open_events_def lock_events_def created_def attached_def full_world_def
        testing_full_def proc_9_def numeral_3_eq_3)
  have e2: "limitInstances holder_exits 2 ''1'' ''testing'' proc_9 held_world
       = (Returned EXIT_SUCCESS,
          fst (snd (limitInstances holder_exits 2 ''1'' ''testing'' proc_9 held_world)),
          [Debug ''key:'', Create False, Attach True, Lock True, Debug ''control update'',
           Update WAITING, Sleep 10, Update UPDATED,
           Unlock, Debug ''memoria unlocada'', Detach])"
    by (simp add: limit_defs toInt_examples world_defs run_defs table_defs probe_defs
        numeral_2_eq_2)
  show ?thesis using h1 h2 e1 e2 by simp
qed

subsection \<open>The lock\<close>

text \<open>
  Claim C2 as stated fails. Process 5 holds the only slot; process 9 acquires the lock,
  fails its first attempt and sleeps with the lock held; process 5 exits during the
  sleep and the second attempt reclaims its slot. No \<open>unlock\<close> precedes the sleep and
  no \<open>lock\<close> follows it.
\<close>

theorem sleep_with_lock_counterexample:
  "snd (snd (limitInstances holder_exits 2 ''1'' ''testing'' proc_9 held_world))
      = [Debug ''key:'', Create False, Attach True, Lock True, Debug ''control update'',
         Update WAITING, Sleep 10, Update UPDATED,
         Unlock, Debug ''memoria unlocada'', Detach]
   \<and> \<not> sleeps_unlocked False
         (snd (snd (limitInstances holder_exits 2 ''1'' ''testing'' proc_9 held_world)))"
  by (simp add: limit_defs toInt_examples world_defs run_defs table_defs probe_defs
      numeral_2_eq_2)

text \<open>
  Claim C2, amended. When \<open>lock\<close> succeeds, the events of the call that concern the
  lock or the table are exactly: \<open>lock\<close>, then the failed attempts each followed by
  its sleep, then, if the call returns, the successful attempt and \<open>unlock\<close>. The lock
  is acquired once, before the first attempt, and released once, after the successful
  attempt; every attempt and every sleep happens with the lock held, so a trace with a
  sleep in it never has the sleep outside the lock.
\<close>

theorem lock_held_across_sleeps:
  assumes locked: "\<not> lock_fails p"
    and parse: "toInt s = (maxInst, True)" and valid: "maxInst \<le> MAX_INSTANCES"
    and run: "limitInstances env fuel s key p w = (r, w', evs)"
  shows "(\<exists>k\<le>fuel.
            evs = open_events p w key @ Lock True # Debug ''control update'' # retries k
                    @ (if r = Returned EXIT_SUCCESS
                       then [Update UPDATED, Unlock, Debug ''memoria unlocada'', Detach]
                       else [])
          \<and> filter lock_or_table_event evs
              = Lock True # retries k
                  @ (if r = Returned EXIT_SUCCESS then [Update UPDATED, Unlock] else [])
          \<and> (r = Running \<longrightarrow> k = fuel))
       \<and> count_list evs (Lock True) = 1
       \<and> Lock False \<notin> set evs
       \<and> count_list evs Unlock = (if r = Returned EXIT_SUCCESS then 1 else 0)
       \<and> sleeps_locked False evs
       \<and> updates_locked False evs
       \<and> (Sleep 10 \<in> set evs \<longrightarrow> \<not> sleeps_unlocked False evs)"
proof -
  obtain k where k: "k \<le> fuel"
    "evs = open_events p w key @ lock_events p @ retries k
             @ (if r = Returned EXIT_SUCCESS then Update UPDATED # close_events else [])"
    "r = Running \<longrightarrow> k = fuel"
    using limitInstances_trace[OF parse valid run] by blast
  have le: "lock_events p = [Lock True, Debug ''control update'']"
    using locked by (simp add: lock_events_def)
  have shape: "evs = open_events p w key @ Lock True # Debug ''control update'' # retries k
                    @ (if r = Returned EXIT_SUCCESS
                       then [Update UPDATED, Unlock, Debug ''memoria unlocada'', Detach]
                       else [])"
    unfolding k(2) le by (simp add: close_events_def)
  have skel: "filter lock_or_table_event evs
              = Lock True # retries k
                  @ (if r = Returned EXIT_SUCCESS then [Update UPDATED, Unlock] else [])"
    unfolding shape by simp
  have cnt: "count_list evs (Lock True) = 1"
    "count_list evs Unlock = (if r = Returned EXIT_SUCCESS then 1 else 0)"
    unfolding shape by simp_all
  have nofail: "Lock False \<notin> set evs"
    unfolding shape by (auto simp: set_open_events set_retries split: if_splits)
  have sl: "sleeps_locked False evs" "updates_locked False evs"
    unfolding shape by simp_all
  have su: "\<not> sleeps_unlocked False evs" if "Sleep 10 \<in> set evs"
  proof -
    have "k \<noteq> 0"
      using that unfolding shape
      by (auto simp: set_open_events set_retries split: if_splits)
    then show ?thesis unfolding shape by simp
  qed
  show ?thesis using k(1,3) shape skel cnt nofail sl su by blast
qed

theorem lock_held_across_sleeps_witness:
  "\<not> lock_fails proc_9 \<and> toInt ''1'' = (1, True) \<and> (1::int) \<le> MAX_INSTANCES
   \<and> limitInstances holder_exits 2 ''1'' ''testing'' proc_9 held_world
       = (Returned EXIT_SUCCESS,
          fst (snd (limitInstances holder_exits 2 ''1'' ''testing'' proc_9 held_world)),
          [Debug ''key:'', Create False, Attach True, Lock True, Debug ''control update'',
           Update WAITING, Sleep 10, Update UPDATED,
           Unlock, Debug ''memoria unlocada'', Detach])
   \<and> filter lock_or_table_event
        [Debug ''key:'', Create False, Attach True, Lock True, Debug ''control update'',
           Update WAITING, Sleep 10, Update UPDATED,
           Unlock, Debug ''memoria unlocada'', Detach]
       = [Lock True, Update WAITING, Sleep 10, Update UPDATED, Unlock]
   \<and> sleeps_locked False
        [Debug ''key:'', Create False, Attach True, Lock True, Debug ''control update'',
           Update WAITING, Sleep 10, Update UPDATED,
           Unlock, Debug ''memoria unlocada'', Detach]
   \<and> \<not> sleeps_unlocked False
        [Debug ''key:'', Create False, Attach True, Lock True, Debug ''control update'',
           Update WAITING, Sleep 10, Update UPDATED,
           Unlock, Debug ''memoria unlocada'', Detach]"
proof -
  have h1: "\<not> lock_fails proc_9" by (simp add: proc_9_def)
  have h2: "toInt ''1'' = (1, True)" by (rule toInt_examples)
  have h3: "(1::int) \<le> MAX_INSTANCES" by (simp add: MAX_INSTANCES_def)
  have h4: "limitInstances holder_exits 2 ''1'' ''testing'' proc_9 held_world
       = (Returned EXIT_SUCCESS,
          fst (snd (limitInstances holder_exits 2 ''1'' ''testing'' proc_9 held_world)),
          [Debug ''key:'', Create False, Attach True, Lock True, Debug ''control update'',
           Update WAITING, Sleep 10, Update UPDATED,
           Unlock, Debug ''memoria unlocada'', Detach])"
    by (simp add: limit_defs toInt_examples world_defs run_defs table_defs probe_defs
        numeral_2_eq_2)
  note t = lock_held_across_sleeps[OF h1 h2 h3 h4]
  have a: "sleeps_locked False
        [Debug ''key:'', Create False, Attach True, Lock True, Debug ''control update'',
           Update WAITING, Sleep 10, Update UPDATED,
           Unlock, Debug ''memoria unlocada'', Detach]"
    using t by blast
  have b: "\<not> sleeps_unlocked False
        [Debug ''key:'', Create False, Attach True, Lock True, Debug ''control update'',
           Update WAITING, Sleep 10, Update UPDATED,
           Unlock, Debug ''memoria unlocada'', Detach]"
    using t by simp
  show ?thesis using h1 h2 h3 h4 a b by simp
qed

text \<open>
  Claim C9 as stated fails. \<open>lock\<close> fails for process 9 on a new segment: the call
  writes the debug line, then writes the table without the lock and returns success.
\<close>

theorem lock_failure_counterexample:
  "fst (limitInstances no_env 1 ''1'' ''testing'' proc_9_unlocked empty_world)
      = Returned EXIT_SUCCESS
   \<and> segments (fst (snd (limitInstances no_env 1 ''1'' ''testing'' proc_9_unlocked empty_world)))
        ''testing''
      = Some [1, 9, 0, 0, 0, 0, 0, 0, 0, 0, 0]
   \<and> snd (snd (limitInstances no_env 1 ''1'' ''testing'' proc_9_unlocked empty_world))
      = [Debug ''key:'', Create True, Lock False, Debug ''lock:'', Debug ''control update'',
         Update UPDATED, Unlock, Debug ''memoria unlocada'', Detach]
   \<and> \<not> updates_locked False
         (snd (snd (limitInstances no_env 1 ''1'' ''testing'' proc_9_unlocked empty_world)))"
  by (simp add: limit_defs toInt_examples world_defs run_defs table_defs probe_defs
      numeral_eq_Suc)

text \<open>
  Claim C9, amended. When \<open>lock\<close> fails for an accepted maximum, the call writes the
  debug line \<open>lock:\<close> and goes on: \<open>lock\<close> is called once and not retried, the lock
  is never acquired, and the loop runs as it does with the lock. It ends at the first
  attempt that does not fail, with \<open>EXIT_SUCCESS\<close> and the table that attempt wrote,
  every attempt having accessed the table without the lock; no failure is returned.
  In the call in which \<open>lock\<close> succeeds every access happens with the lock held, and
  result, world and the other events are the same.
\<close>

theorem lock_failure_ignored:
  assumes fails: "lock_fails p"
    and parse: "toInt s = (maxInst, True)" and valid: "maxInst \<le> MAX_INSTANCES"
    and run: "limitInstances env fuel s key p w = (r, w', evs)"
  shows "(\<exists>k\<le>fuel.
            (\<forall>j<k. attempt_fails env maxInst key (attached p w key) (created p w key)
                      (applicationPid p) (created_world p w key) j)
          \<and> (k < fuel \<longrightarrow> \<not> attempt_fails env maxInst key (attached p w key) (created p w key)
                      (applicationPid p) (created_world p w key) k)
          \<and> (r, w', evs)
              = (if k = fuel
                 then (Running, world_before env (created_world p w key) k,
                       open_events p w key
                         @ Lock False # Debug ''lock:'' # Debug ''control update'' # retries k)
                 else case attempt env maxInst key (attached p w key) (created p w key)
                             (applicationPid p) (created_world p w key) k of
                        Inl f \<Rightarrow> (Crashed, world_before env (created_world p w key) k,
                                  open_events p w key
                                    @ Lock False # Debug ''lock:'' # Debug ''control update''
                                    # retries k)
                      | Inr (st, mem') \<Rightarrow>
                          (Returned EXIT_SUCCESS,
                           (world_before env (created_world p w key) k)
                             \<lparr>segments := (segments (world_before env (created_world p w key) k))
                                            (key \<mapsto> mem')\<rparr>,
                           open_events p w key
                             @ Lock False # Debug ''lock:'' # Debug ''control update'' # retries k
                             @ [Update UPDATED, Unlock, Debug ''memoria unlocada'', Detach]))
          \<and> filter lock_or_table_event evs
              = Lock False # retries k
                  @ (if r = Returned EXIT_SUCCESS then [Update UPDATED, Unlock] else []))
       \<and> count_list evs (Lock False) = 1
       \<and> Lock False \<in> set evs \<and> Debug ''lock:'' \<in> set evs \<and> Lock True \<notin> set evs
       \<and> updates_unlocked False evs
       \<and> r \<noteq> Returned EXIT_FAILURE
       \<and> (r = Returned EXIT_SUCCESS \<longrightarrow> \<not> updates_locked False evs)
       \<and> (\<exists>evs0. limitInstances env fuel s key (p\<lparr>lock_fails := False\<rparr>) w = (r, w', evs0)
             \<and> filter (\<lambda>e. \<not> is_lock_event e) evs0 = filter (\<lambda>e. \<not> is_lock_event e) evs
             \<and> updates_locked False evs0)"
proof -
  note old = lock_failure_same_run[OF fails parse valid run]
  have le: "lock_events p = [Lock False, Debug ''lock:'', Debug ''control update'']"
    using fails by (simp add: lock_events_def)
  obtain k where k: "k \<le> fuel"
    "\<forall>j<k. attempt_fails env maxInst key (attached p w key) (created p w key)
                      (applicationPid p) (created_world p w key) j"
    "k < fuel \<longrightarrow> \<not> attempt_fails env maxInst key (attached p w key) (created p w key)
                      (applicationPid p) (created_world p w key) k"
    "limitInstances env fuel s key p w
        = (if k = fuel
           then (Running, world_before env (created_world p w key) k,
                 open_events p w key @ lock_events p @ retries k)
           else case attempt env maxInst key (attached p w key) (created p w key)
                       (applicationPid p) (created_world p w key) k of
                  Inl f \<Rightarrow> (Crashed, world_before env (created_world p w key) k,
                            open_events p w key @ lock_events p @ retries k)
                | Inr (st, mem') \<Rightarrow>
                    (Returned EXIT_SUCCESS,
                     (world_before env (created_world p w key) k)
                       \<lparr>segments := (segments (world_before env (created_world p w key) k))
                                      (key \<mapsto> mem')\<rparr>,
                     open_events p w key @ lock_events p @ retries k
                       @ Update UPDATED # close_events))"
    using limitInstances_first[OF parse valid, of fuel env key p w] by blast
  have eq: "(r, w', evs)
              = (if k = fuel
                 then (Running, world_before env (created_world p w key) k,
                       open_events p w key
                         @ Lock False # Debug ''lock:'' # Debug ''control update'' # retries k)
                 else case attempt env maxInst key (attached p w key) (created p w key)
                             (applicationPid p) (created_world p w key) k of
                        Inl f \<Rightarrow> (Crashed, world_before env (created_world p w key) k,
                                  open_events p w key
                                    @ Lock False # Debug ''lock:'' # Debug ''control update''
                                    # retries k)
                      | Inr (st, mem') \<Rightarrow>
                          (Returned EXIT_SUCCESS,
                           (world_before env (created_world p w key) k)
                             \<lparr>segments := (segments (world_before env (created_world p w key) k))
                                            (key \<mapsto> mem')\<rparr>,
                           open_events p w key
                             @ Lock False # Debug ''lock:'' # Debug ''control update'' # retries k
                             @ [Update UPDATED, Unlock, Debug ''memoria unlocada'', Detach]))"
    using k(4) unfolding run le
    by (simp add: close_events_def split: sum.splits prod.splits)
  have shape: "evs = open_events p w key
                 @ Lock False # Debug ''lock:'' # Debug ''control update'' # retries k
                 @ (if r = Returned EXIT_SUCCESS
                    then [Update UPDATED, Unlock, Debug ''memoria unlocada'', Detach] else [])"
    using eq
    by (auto simp: EXIT_SUCCESS_def split: if_splits sum.splits prod.splits)
  have skel: "filter lock_or_table_event evs
              = Lock False # retries k
                  @ (if r = Returned EXIT_SUCCESS then [Update UPDATED, Unlock] else [])"
    unfolding shape by simp
  have cnt: "count_list evs (Lock False) = 1"
    unfolding shape by simp
  have un: "updates_unlocked False evs"
    unfolding shape by simp
  show ?thesis
    using k(1,2,3) eq skel cnt un old by blast
qed

theorem lock_failure_ignored_witness:
  "lock_fails proc_9_unlocked \<and> toInt ''1'' = (1, True) \<and> (1::int) \<le> MAX_INSTANCES
   \<and> limitInstances holder_exits 2 ''1'' ''testing'' proc_9_unlocked held_world
       = (Returned EXIT_SUCCESS,
          fst (snd (limitInstances holder_exits 2 ''1'' ''testing'' proc_9_unlocked held_world)),
          [Debug ''key:'', Create False, Attach True, Lock False, Debug ''lock:'',
           Debug ''control update'', Update WAITING, Sleep 10, Update UPDATED,
           Unlock, Debug ''memoria unlocada'', Detach])
   \<and> segments (fst (snd (limitInstances holder_exits 2 ''1'' ''testing'' proc_9_unlocked
                           held_world))) ''testing''
       = Some [1, 9, 0, 0, 0, 0, 0, 0, 0, 0, 0]
   \<and> count_list
        [Debug ''key:'', Create False, Attach True, Lock False, Debug ''lock:'',
         Debug ''control update'', Update WAITING, Sleep 10, Update UPDATED,
         Unlock, Debug ''memoria unlocada'', Detach] (Lock False) = 1
   \<and> updates_unlocked False
        [Debug ''key:'', Create False, Attach True, Lock False, Debug ''lock:'',
         Debug ''control update'', Update WAITING, Sleep 10, Update UPDATED,
         Unlock, Debug ''memoria unlocada'', Detach]
   \<and> \<not> updates_locked False
        [Debug ''key:'', Create False, Attach True, Lock False, Debug ''lock:'',
         Debug ''control update'', Update WAITING, Sleep 10, Update UPDATED,
         Unlock, Debug ''memoria unlocada'', Detach]"
proof -
  have h1: "lock_fails proc_9_unlocked" by (simp add: proc_9_unlocked_def)
  have h2: "toInt ''1'' = (1, True)" by (rule toInt_examples)
  have h3: "(1::int) \<le> MAX_INSTANCES" by (simp add: MAX_INSTANCES_def)
  have h4: "limitInstances holder_exits 2 ''1'' ''testing'' proc_9_unlocked held_world
       = (Returned EXIT_SUCCESS,
          fst (snd (limitInstances holder_exits 2 ''1'' ''testing'' proc_9_unlocked held_world)),
          [Debug ''key:'', Create False, Attach True, Lock False, Debug ''lock:'',
           Debug ''control update'', Update WAITING, Sleep 10, Update UPDATED,
           Unlock, Debug ''memoria unlocada'', Detach])"
    by (simp add: limit_defs toInt_examples world_defs run_defs table_defs probe_defs
        numeral_2_eq_2)
  have h5: "segments (fst (snd (limitInstances holder_exits 2 ''1'' ''testing'' proc_9_unlocked
                           held_world))) ''testing''
       = Some [1, 9, 0, 0, 0, 0, 0, 0, 0, 0, 0]"
    by (simp add: limit_defs toInt_examples world_defs run_defs table_defs probe_defs
        numeral_2_eq_2)
  note t = lock_failure_ignored[OF h1 h2 h3 h4]
  have a: "count_list
        [Debug ''key:'', Create False, Attach True, Lock False, Debug ''lock:'',
         Debug ''control update'', Update WAITING, Sleep 10, Update UPDATED,
         Unlock, Debug ''memoria unlocada'', Detach] (Lock False) = 1"
    using t by blast
  have b: "updates_unlocked False
        [Debug ''key:'', Create False, Attach True, Lock False, Debug ''lock:'',
         Debug ''control update'', Update WAITING, Sleep 10, Update UPDATED,
         Unlock, Debug ''memoria unlocada'', Detach]"
    using t by blast
  have c: "\<not> updates_locked False
        [Debug ''key:'', Create False, Attach True, Lock False, Debug ''lock:'',
         Debug ''control update'', Update WAITING, Sleep 10, Update UPDATED,
         Unlock, Debug ''memoria unlocada'', Detach]"
    using t by blast
  show ?thesis using h1 h2 h3 h4 h5 a b c by simp
qed

subsection \<open>The configured maximum\<close>

text \<open>
  Claim C1 as stated fails. A configured maximum of 0 passes the check
  \<open>!ok || maxInst > MAX_INSTANCES\<close>: the call creates the segment, writes the table and
  returns success.
\<close>

theorem zero_maximum_counterexample:
  "toInt ''0'' = (0, True)
   \<and> fst (limitInstances no_env 1 ''0'' ''testing'' proc_9 empty_world) = Returned EXIT_SUCCESS
   \<and> fst (limitInstances no_env 1 ''0'' ''testing'' proc_9 empty_world) \<noteq> Returned EXIT_FAILURE
   \<and> segments (fst (snd (limitInstances no_env 1 ''0'' ''testing'' proc_9 empty_world)))
        ''testing''
      = Some [1, 9, 0, 0, 0, 0, 0, 0, 0, 0, 0]
   \<and> snd (snd (limitInstances no_env 1 ''0'' ''testing'' proc_9 empty_world))
      = [Debug ''key:'', Create True, Lock True, Debug ''control update'', Update UPDATED,
         Unlock, Debug ''memoria unlocada'', Detach]"
  by (simp add: limit_defs toInt_examples world_defs run_defs numeral_eq_Suc)

text \<open>
  Claim C1, amended. For every key, a configured maximum that is not a number or is
  above \<open>MAX_INSTANCES\<close> (11 for one) makes \<open>limitInstances\<close> return
  \<open>EXIT_FAILURE\<close> at once, with the world unchanged and no event: nothing is created,
  attached, read or written. A configured maximum of 0 is not rejected: the call goes
  on to \<open>create\<close>.
\<close>

theorem invalid_maximum_rejected:
  assumes parse: "toInt s = (maxInst, ok)" and bad: "\<not> ok \<or> MAX_INSTANCES < maxInst"
  shows "limitInstances env fuel s key p w = (Returned EXIT_FAILURE, w, [])
       \<and> fst (limitInstances env fuel ''0'' key p w) \<noteq> Returned EXIT_FAILURE
       \<and> take 2 (snd (snd (limitInstances env fuel ''0'' key p w)))
           = [Debug ''key:'', Create (created p w key)]"
proof -
  have a: "limitInstances env fuel s key p w = (Returned EXIT_FAILURE, w, [])"
    by (rule limitInstances_invalid[OF parse bad])
  obtain r w' evs where run: "limitInstances env fuel ''0'' key p w = (r, w', evs)"
    by (metis prod_cases3)
  have z: "(0::int) \<le> MAX_INSTANCES" by (simp add: MAX_INSTANCES_def)
  obtain k where k:
    "evs = open_events p w key @ lock_events p @ retries k
             @ (if r = Returned EXIT_SUCCESS then Update UPDATED # close_events else [])"
    "r = Returned EXIT_SUCCESS \<or> r = Crashed \<or> r = Running"
    using limitInstances_trace[OF toInt_examples(1) z run] by blast
  have b: "r \<noteq> Returned EXIT_FAILURE"
    using k(2) by (auto simp: EXIT_SUCCESS_def EXIT_FAILURE_def)
  have c: "take 2 evs = [Debug ''key:'', Create (created p w key)]"
    unfolding k(1) by (simp add: open_events_def)
  show ?thesis using a b c run by simp
qed

theorem invalid_maximum_rejected_witness:
  "toInt ''11'' = (11, True) \<and> MAX_INSTANCES < 11
   \<and> limitInstances no_env 1 ''11'' ''testing'' proc_9 empty_world
       = (Returned EXIT_FAILURE, empty_world, [])
   \<and> toInt ''abc'' = (0, False)
   \<and> limitInstances no_env 1 ''abc'' ''testing'' proc_9 empty_world
       = (Returned EXIT_FAILURE, empty_world, [])"
proof -
  have h1: "toInt ''11'' = (11, True)" by (rule toInt_examples)
  have h2: "\<not> True \<or> MAX_INSTANCES < 11" by (simp add: MAX_INSTANCES_def)
  have g1: "toInt ''abc'' = (0, False)" by (simp add: toInt_defs)
  have g2: "\<not> False \<or> MAX_INSTANCES < 0" by simp
  show ?thesis
    using h1 g1 invalid_maximum_rejected[OF h1 h2, of no_env 1 "''testing''" proc_9 empty_world]
      invalid_maximum_rejected[OF g1 g2, of no_env 1 "''testing''" proc_9 empty_world]
    by (simp add: MAX_INSTANCES_def)
qed

text \<open>
  Claim C8 as stated fails. The diagnostic that \<open>main\<close> prints for
  \<open>--max-instances=11\<close> names the range 0 to 10, not 1 to 10.
\<close>

theorem diagnostic_range_counterexample:
  "main_max_instances no_env 1 ''generatorrunner'' args_11 proc_9 empty_world
     = (Exit EXIT_FAILURE,
        ''generatorrunner: You must set max-instances using numbers [0 - 10]'' @ [CHR 0x0A],
        empty_world, [])
   \<and> numbers_in (fst (snd (main_max_instances no_env 1 ''generatorrunner'' args_11 proc_9
                            empty_world)))
       = [0, 10]
   \<and> numbers_in (fst (snd (main_max_instances no_env 1 ''generatorrunner'' args_11 proc_9
                            empty_world)))
       \<noteq> [1, 10]"
  by (simp add: main_max_instances_def limit_defs toInt_examples args_11_def show_int_def
      show_nat.simps numbers_in_def is_digit_def digit_val_def)

text \<open>
  Claim C8, amended. When \<open>limitInstances\<close> rejects the configured maximum, \<open>main\<close>
  prints \<open>argv[0]\<close> followed by
  \<open>: You must set max-instances using numbers [0 - 10]\<close> on \<open>std::cerr\<close> and returns
  the non-zero status \<open>EXIT_FAILURE\<close>; when \<open>limitInstances\<close> returns success these
  lines print nothing and \<open>main\<close> continues.
\<close>

theorem invalid_maximum_exit:
  assumes arg: "args ''max-instances'' = Some v" and parse: "toInt v = (maxInst, ok)"
  shows "(\<not> ok \<or> MAX_INSTANCES < maxInst \<longrightarrow>
            main_max_instances env fuel argv0 args p w
              = (Exit EXIT_FAILURE,
                 argv0 @ '': You must set max-instances using numbers [0 - 10]'' @ [CHR 0x0A],
                 w, [])
            \<and> EXIT_FAILURE \<noteq> 0)
       \<and> (fst (limitInstances env fuel v ''testing'' p w) = Returned EXIT_SUCCESS \<longrightarrow>
            fst (main_max_instances env fuel argv0 args p w) = Continue
            \<and> fst (snd (main_max_instances env fuel argv0 args p w)) = [])"
proof -
  have si: "show_int MAX_INSTANCES = ''10''"
    by (simp add: show_int_def show_nat.simps MAX_INSTANCES_def)
  have a: "main_max_instances env fuel argv0 args p w
              = (Exit EXIT_FAILURE,
                 argv0 @ '': You must set max-instances using numbers [0 - 10]'' @ [CHR 0x0A],
                 w, [])"
    if bad: "\<not> ok \<or> MAX_INSTANCES < maxInst"
    using limitInstances_invalid[OF parse bad, of env fuel "''testing''" p w] arg si
    by (simp add: main_max_instances_def)
  have b: "fst (main_max_instances env fuel argv0 args p w) = Continue
            \<and> fst (snd (main_max_instances env fuel argv0 args p w)) = []"
    if ok: "fst (limitInstances env fuel v ''testing'' p w) = Returned EXIT_SUCCESS"
  proof -
    obtain w' evs where "limitInstances env fuel v ''testing'' p w
        = (Returned EXIT_SUCCESS, w', evs)"
      using ok by (metis fst_conv prod_cases3)
    then show ?thesis
      using arg by (simp add: main_max_instances_def EXIT_SUCCESS_def EXIT_FAILURE_def)
  qed
  have c: "EXIT_FAILURE \<noteq> 0" by (simp add: EXIT_FAILURE_def)
  show ?thesis using a b c by blast
qed

theorem invalid_maximum_exit_witness:
  "args_11 ''max-instances'' = Some ''11'' \<and> toInt ''11'' = (11, True)
   \<and> MAX_INSTANCES < 11
   \<and> main_max_instances no_env 1 ''generatorrunner'' args_11 proc_9 empty_world
       = (Exit EXIT_FAILURE,
          ''generatorrunner: You must set max-instances using numbers [0 - 10]'' @ [CHR 0x0A],
          empty_world, [])
   \<and> args_1 ''max-instances'' = Some ''1'' \<and> toInt ''1'' = (1, True)
   \<and> fst (limitInstances no_env 1 ''1'' ''testing'' proc_9 empty_world) = Returned EXIT_SUCCESS
   \<and> fst (main_max_instances no_env 1 ''generatorrunner'' args_1 proc_9 empty_world) = Continue
   \<and> fst (snd (main_max_instances no_env 1 ''generatorrunner'' args_1 proc_9 empty_world)) = []"
proof -
  have h1: "args_11 ''max-instances'' = Some ''11''" by (simp add: args_11_def)
  have h2: "toInt ''11'' = (11, True)" by (rule toInt_examples)
  have h3: "MAX_INSTANCES < 11" by (simp add: MAX_INSTANCES_def)
  have g1: "args_1 ''max-instances'' = Some ''1''" by (simp add: args_1_def)
  have g2: "toInt ''1'' = (1, True)" by (rule toInt_examples)
  have g3: "fst (limitInstances no_env 1 ''1'' ''testing'' proc_9 empty_world)
              = Returned EXIT_SUCCESS"
    by (simp add: limit_defs toInt_examples world_defs run_defs numeral_eq_Suc)
  show ?thesis
    using h1 h2 h3 g1 g2 g3
      invalid_maximum_exit[where args = args_11 and v = "''11''" and maxInst = 11
        and ok = True and env = no_env and fuel = 1 and ?argv0.0 = "''generatorrunner''"
        and p = proc_9 and w = empty_world, OF h1 h2]
      invalid_maximum_exit[where args = args_1 and v = "''1''" and maxInst = 1
        and ok = True and env = no_env and fuel = 1 and ?argv0.0 = "''generatorrunner''"
        and p = proc_9 and w = empty_world, OF g1 g2]
    by simp
qed

end
